(* ===== verification/Prelude.thy ===== *)
theory Prelude
  imports Main "HOL-Library.Word"
begin

text \<open>
  Shared vocabulary of the MovieSearchApp model (\<open>src/src/App.jsx\<close>): the JavaScript
  string type (a list of UTF-16 code units), the time unit of the debounce timer, the
  JavaScript exceptions that the code raises or catches, and generic lemmas about the
  sum type that carries them.  The collection \<open>model_simps\<close> gathers the equations of
  the small operations of every component, so that component proofs say
  \<open>simp add: model_simps\<close> instead of unfolding each definition by name.
\<close>

named_theorems model_simps "equations of the operations of the application model"

subsection \<open>Types shared by the components\<close>

text \<open>A JavaScript string is a sequence of UTF-16 code units.\<close>

type_synonym js_string = "16 word list"

text \<open>Milliseconds of the browser clock (the unit of \<open>setTimeout\<close>).\<close>

type_synonym time = nat

text \<open>
  The exceptions that can reach the \<open>catch\<close> blocks of \<open>fetchMovies\<close> and
  \<open>loadTrendingMovies\<close>: a rejected \<open>fetch\<close> (\<open>TypeError: Failed to fetch\<close>),
  the \<open>Error\<close> that \<open>fetchTMDB\<close> throws on a non-ok status (its message is fixed
  and does not carry the status),
  a rejected \<open>response.json()\<close> (\<open>SyntaxError\<close>), a property read on \<open>null\<close>
  (\<open>TypeError\<close>) and the \<open>URIError\<close> of \<open>encodeURIComponent\<close>; and, in the
  view, the \<open>TypeError\<close> of calling \<open>.map\<close> on a value that has no such method.
\<close>

datatype js_error =
    NetworkError
  | HttpError
  | ParseError
  | NullPropertyError
  | URIError
  | NotAFunction

subsection \<open>Results as sums\<close>

text \<open>Sequencing of fallible steps: an exception skips the rest of the \<open>try\<close> block.\<close>

definition sum_bind :: "'e + 'a \<Rightarrow> ('a \<Rightarrow> 'e + 'b) \<Rightarrow> 'e + 'b" where
  "sum_bind x f = (case x of Inl e \<Rightarrow> Inl e | Inr a \<Rightarrow> f a)"

lemma sum_bind_simps [simp]:
  "sum_bind (Inl e) f = Inl e"
  "sum_bind (Inr a) f = f a"
  by (simp_all add: sum_bind_def)

lemma map_sum_eq_Inr_iff [simp]:
  "map_sum f g x = Inr y \<longleftrightarrow> (\<exists>z. x = Inr z \<and> y = g z)"
  by (cases x) auto

lemma map_sum_eq_Inl_iff [simp]:
  "map_sum f g x = Inl e \<longleftrightarrow> (\<exists>z. x = Inl z \<and> e = f z)"
  by (cases x) auto

lemma map_sum_id_Inl_iff:
  "map_sum id g x = Inl e \<longleftrightarrow> x = Inl e"
  by (cases x) auto

subsection \<open>Lists\<close>

lemma append_singleton_fun: "(@) [x] = Cons x"
  by (rule ext) simp


lemma filter_remove1_other: "\<not> P x \<Longrightarrow> filter P (remove1 x xs) = filter P xs"
  by (induction xs) auto

lemma filter_remove1_single:
  "x \<in> set xs \<Longrightarrow> P x \<Longrightarrow> length (filter P xs) \<le> 1 \<Longrightarrow> filter P (remove1 x xs) = []"
proof (induction xs)
  case Nil
  then show ?case by simp
next
  case (Cons y ys)
  show ?case
  proof (cases "y = x")
    case True
    with Cons.prems have "filter P ys = []" by simp
    with True show ?thesis by simp
  next
    case False
    with Cons.prems have "x \<in> set ys" by simp
    with Cons.prems have "0 < length (filter P ys)"
      by (metis filter_empty_conv length_greater_0_conv)
    with Cons.prems False have "\<not> P y" by (auto split: if_splits)
    with False Cons show ?thesis by simp
  qed
qed

lemma distinct_map_remove1: "distinct (map f xs) \<Longrightarrow> distinct (map f (remove1 x xs))"
  by (induction xs) (auto dest: subsetD[OF set_remove1_subset])

end
