(* ===== verification/Json.thy ===== *)
theory Json
  imports Prelude
begin

text \<open>
  The values that \<open>response.json()\<close> yields and that \<open>App.jsx\<close> stores and reads:
  JSON values, JavaScript truthiness (the conditions \<open>data.results || []\<close> and
  \<open>movie.poster_path ? ... : ...\<close>), property reads
  (\<open>data.results\<close>, which throws on \<open>null\<close>) and the fallback of
  \<open>fetchMovies\<close>/\<open>loadTrendingMovies\<close> (lines 47 and 63) that turns a missing or
  falsy \<open>results\<close> field into the empty array.
  JSON strings are kept as \<open>string\<close>: they are only compared, tested for emptiness and
  concatenated, never encoded.  JSON numbers are modelled by their integer values.
\<close>

datatype json =
    JNull
  | JBool bool
  | JNum int
  | JStr string
  | JArr "json list"
  | JObj "(string \<times> json) list"

subsection \<open>Truthiness\<close>

text \<open>\<open>ToBoolean\<close> of a JSON value: every array and object is truthy, even an empty one.\<close>

fun js_truthy :: "json \<Rightarrow> bool" where
  "js_truthy JNull = False"
| "js_truthy (JBool b) = b"
| "js_truthy (JNum n) = (n \<noteq> 0)"
| "js_truthy (JStr s) = (s \<noteq> [])"
| "js_truthy (JArr xs) = True"
| "js_truthy (JObj kvs) = True"

subsection \<open>Property reads\<close>

text \<open>
  \<open>JSON.parse\<close> keeps the last of duplicated keys, so a property read looks the key
  up from the end of the member list.  Reading a property of \<open>null\<close> throws a
  \<open>TypeError\<close>; reading a property that a primitive or an array lacks gives
  \<open>undefined\<close> (\<open>None\<close>).
\<close>

fun get_prop :: "json \<Rightarrow> string \<Rightarrow> js_error + json option" where
  "get_prop JNull k = Inl NullPropertyError"
| "get_prop (JObj kvs) k = Inr (map_of (rev kvs) k)"
| "get_prop (JBool b) k = Inr None"
| "get_prop (JNum n) k = Inr None"
| "get_prop (JStr s) k = Inr None"
| "get_prop (JArr xs) k = Inr None"

text \<open>\<open>x || []\<close> where \<open>x\<close> may be \<open>undefined\<close>.\<close>

definition or_empty :: "json option \<Rightarrow> json" where
  "or_empty v = (case v of Some j \<Rightarrow> if js_truthy j then j else JArr [] | None \<Rightarrow> JArr [])"

text \<open>\<open>data.results || []\<close> (App.jsx lines 47 and 63).\<close>

definition results_of :: "json \<Rightarrow> js_error + json" where
  "results_of data = map_sum id or_empty (get_prop data ''results'')"

lemmas json_simps [model_simps] = or_empty_def results_of_def

subsection \<open>Lemmas\<close>

lemma or_empty_truthy: "js_truthy (or_empty v)"
  by (auto simp: or_empty_def split: option.splits)

text \<open>The value stored by a successful fetch is truthy: never null, undefined, 0, false or empty text.\<close>

lemma results_of_truthy: "results_of d = Inr v \<Longrightarrow> js_truthy v"
  by (auto simp: results_of_def or_empty_truthy)

lemma results_of_obj:
  "results_of (JObj kvs) = Inr (or_empty (map_of (rev kvs) ''results''))"
  by (simp add: results_of_def)

lemma results_of_missing:
  "map_of (rev kvs) ''results'' = None \<Longrightarrow> results_of (JObj kvs) = Inr (JArr [])"
  by (simp add: results_of_def or_empty_def)

lemma results_of_array:
  "map_of (rev kvs) ''results'' = Some (JArr xs) \<Longrightarrow> results_of (JObj kvs) = Inr (JArr xs)"
  by (simp add: results_of_def or_empty_def)

end
