(* ===== verification/UriEncode.thy ===== *)
theory UriEncode
  imports Prelude
begin

text \<open>
  \<open>encodeURIComponent\<close>, which \<open>fetchMovies\<close> applies to the search term
  (App.jsx line 43).  It is a built-in of the JavaScript runtime, not code of this
  repository, so it is modelled from ECMA-262 (the abstract operation \<open>Encode\<close>
  with the unescaped set of \<open>encodeURIComponent\<close>): a code unit of the unreserved
  set is copied; any other code point is written as the percent-escapes of its UTF-8
  bytes, in upper-case hexadecimal; an unpaired surrogate throws \<open>URIError\<close>.
  The one-pass encoder is shown equal to a two-phase reference (decode UTF-16 to code
  points, then escape each code point); its output is shown to consist of URL-safe
  characters only, and to percent-decode back to the UTF-8 bytes of the input (theory \<open>UriDecode\<close> completes the round
  trip to the code units).
\<close>

subsection \<open>Code units\<close>

definition uri_unreserved :: "16 word \<Rightarrow> bool" where
  "uri_unreserved c \<longleftrightarrow>
     (0x41 \<le> c \<and> c \<le> 0x5A) \<or> (0x61 \<le> c \<and> c \<le> 0x7A) \<or> (0x30 \<le> c \<and> c \<le> 0x39) \<or>
     c \<in> set [0x2D, 0x5F, 0x2E, 0x21, 0x7E, 0x2A, 0x27, 0x28, 0x29]"

definition is_high_surrogate :: "16 word \<Rightarrow> bool" where
  "is_high_surrogate c \<longleftrightarrow> 0xD800 \<le> c \<and> c \<le> 0xDBFF"

definition is_low_surrogate :: "16 word \<Rightarrow> bool" where
  "is_low_surrogate c \<longleftrightarrow> 0xDC00 \<le> c \<and> c \<le> 0xDFFF"

definition surrogate_pair :: "16 word \<Rightarrow> 16 word \<Rightarrow> nat" where
  "surrogate_pair hi lo = (unat hi - 0xD800) * 0x400 + (unat lo - 0xDC00) + 0x10000"

subsection \<open>UTF-8 and percent-escapes\<close>

definition utf8_encode :: "nat \<Rightarrow> 8 word list" where
  "utf8_encode cp =
     (if cp < 0x80 then [of_nat cp]
      else if cp < 0x800 then [of_nat (0xC0 + cp div 64), of_nat (0x80 + cp mod 64)]
      else if cp < 0x10000 then
        [of_nat (0xE0 + cp div 4096), of_nat (0x80 + (cp div 64) mod 64), of_nat (0x80 + cp mod 64)]
      else
        [of_nat (0xF0 + cp div 262144), of_nat (0x80 + (cp div 4096) mod 64),
         of_nat (0x80 + (cp div 64) mod 64), of_nat (0x80 + cp mod 64)])"

definition hex_digit :: "nat \<Rightarrow> char" where
  "hex_digit d = char_of (if d < 10 then 48 + d else 55 + d)"

definition percent_byte :: "8 word \<Rightarrow> string" where
  "percent_byte b = [CHR ''%'', hex_digit (unat b div 16), hex_digit (unat b mod 16)]"

definition percent_all :: "8 word list \<Rightarrow> string" where
  "percent_all bs = concat (map percent_byte bs)"

subsection \<open>The encoder\<close>

fun encode_uri_component :: "js_string \<Rightarrow> js_error + string" where
  "encode_uri_component [] = Inr []"
| "encode_uri_component (c # cs) =
     (if uri_unreserved c then
        map_sum id (\<lambda>r. char_of (unat c) # r) (encode_uri_component cs)
      else if is_low_surrogate c then Inl URIError
      else if is_high_surrogate c then
        (case cs of
           [] \<Rightarrow> Inl URIError
         | d # ds \<Rightarrow>
             if is_low_surrogate d then
               map_sum id (\<lambda>r. percent_all (utf8_encode (surrogate_pair c d)) @ r)
                 (encode_uri_component ds)
             else Inl URIError)
      else map_sum id (\<lambda>r. percent_all (utf8_encode (unat c)) @ r) (encode_uri_component cs))"

subsection \<open>Reference: decode to code points, then escape each\<close>

fun utf16_decode :: "js_string \<Rightarrow> nat list option" where
  "utf16_decode [] = Some []"
| "utf16_decode (c # cs) =
     (if is_low_surrogate c then None
      else if is_high_surrogate c then
        (case cs of
           [] \<Rightarrow> None
         | d # ds \<Rightarrow>
             if is_low_surrogate d then map_option (Cons (surrogate_pair c d)) (utf16_decode ds)
             else None)
      else map_option (Cons (unat c)) (utf16_decode cs))"

definition encode_code_point :: "nat \<Rightarrow> string" where
  "encode_code_point cp =
     (if cp < 128 \<and> uri_unreserved (of_nat cp) then [char_of cp] else percent_all (utf8_encode cp))"

definition encode_reference :: "js_string \<Rightarrow> js_error + string" where
  "encode_reference s =
     (case utf16_decode s of
        None \<Rightarrow> Inl URIError
      | Some cps \<Rightarrow> Inr (concat (map encode_code_point cps)))"

subsection \<open>Output alphabet and percent-decoding\<close>

text \<open>The characters the encoder may emit: \<open>%\<close> and the unreserved ASCII set.\<close>

definition uri_safe_char :: "char \<Rightarrow> bool" where
  "uri_safe_char ch \<longleftrightarrow> ch = CHR ''%'' \<or> uri_unreserved (of_nat (of_char ch))"

text \<open>
  Percent-decoding to bytes, as \<open>decodeURIComponent\<close> and the server read an escaped
  query value (hexadecimal digits of either case).
\<close>

definition hex_value :: "char \<Rightarrow> nat option" where
  "hex_value ch =
     (let n = of_char ch in
      if 48 \<le> n \<and> n \<le> 57 then Some (n - 48)
      else if 65 \<le> n \<and> n \<le> 70 then Some (n - 55)
      else if 97 \<le> n \<and> n \<le> 102 then Some (n - 87)
      else None)"

fun percent_decode :: "string \<Rightarrow> 8 word list option" where
  "percent_decode [] = Some []"
| "percent_decode (ch # rest) =
     (if ch = CHR ''%'' then
        (case rest of
           h # l # more \<Rightarrow>
             (case (hex_value h, hex_value l) of
                (Some a, Some b) \<Rightarrow> map_option (Cons (of_nat (16 * a + b))) (percent_decode more)
              | _ \<Rightarrow> None)
         | _ \<Rightarrow> None)
      else map_option (Cons (of_nat (of_char ch))) (percent_decode rest))"

subsection \<open>The encoder agrees with the reference\<close>

lemma uri_unreserved_ascii: "uri_unreserved c \<Longrightarrow> unat c < 128"
  unfolding uri_unreserved_def by unat_arith

lemma unreserved_code_point:
  "encode_code_point (unat c) = (if uri_unreserved c then [char_of (unat c)] else percent_all (utf8_encode (unat c)))"
  by (auto simp: encode_code_point_def uri_unreserved_ascii)

lemma surrogate_pair_ge: "0x10000 \<le> surrogate_pair c d"
  by (simp add: surrogate_pair_def)

lemma surrogate_code_point: "encode_code_point (surrogate_pair c d) = percent_all (utf8_encode (surrogate_pair c d))"
  using surrogate_pair_ge[of c d] by (simp add: encode_code_point_def)

lemma unreserved_not_surrogate:
  "uri_unreserved c \<Longrightarrow> \<not> is_low_surrogate c \<and> \<not> is_high_surrogate c"
  using uri_unreserved_ascii[of c]
  by (auto simp: is_low_surrogate_def is_high_surrogate_def word_le_nat_alt)

lemma encode_uri_component_Cons_Inr:
  assumes "encode_uri_component (c # cs) = Inr out"
  obtains (unreserved) r where "uri_unreserved c" "encode_uri_component cs = Inr r"
      "out = char_of (unat c) # r"
  | (pair) d ds r where "\<not> uri_unreserved c" "is_high_surrogate c" "\<not> is_low_surrogate c"
      "cs = d # ds" "is_low_surrogate d" "encode_uri_component ds = Inr r"
      "out = percent_all (utf8_encode (surrogate_pair c d)) @ r"
  | (single) r where "\<not> uri_unreserved c" "\<not> is_high_surrogate c" "\<not> is_low_surrogate c"
      "encode_uri_component cs = Inr r" "out = percent_all (utf8_encode (unat c)) @ r"
  using assms by (auto split: if_splits list.splits)

lemma encode_uri_component_Inr_decode:
  "encode_uri_component s = Inr out \<Longrightarrow>
   \<exists>cps. utf16_decode s = Some cps \<and> out = concat (map encode_code_point cps)"
proof (induction s arbitrary: out rule: encode_uri_component.induct)
  case 1
  then show ?case by simp
next
  case (2 c cs)
  from "2.prems" show ?case
  proof (cases rule: encode_uri_component_Cons_Inr)
    case (unreserved r)
    with "2.IH"(1) unreserved_not_surrogate[of c] show ?thesis by (force simp: unreserved_code_point)
  next
    case (pair d ds r)
    with "2.IH"(2)[of d ds] show ?thesis by (force simp: surrogate_code_point)
  next
    case (single r)
    with "2.IH"(3) show ?thesis by (force simp: unreserved_code_point)
  qed
qed

lemma encode_uri_component_Inl_decode:
  "encode_uri_component s = Inl e \<Longrightarrow> e = URIError \<and> utf16_decode s = None"
  by (induction s rule: encode_uri_component.induct) (auto dest: unreserved_not_surrogate split: if_splits list.splits)

text \<open>
  The one-pass encoder is equivalent to the two-phase reference: decode the UTF-16
  input to code points (failing on an unpaired surrogate), then escape each code point.
\<close>

lemma encode_uri_component_reference: "encode_uri_component s = encode_reference s"
proof (cases "encode_uri_component s")
  case (Inl e)
  then show ?thesis using encode_uri_component_Inl_decode[OF Inl] by (simp add: encode_reference_def)
next
  case (Inr out)
  then show ?thesis using encode_uri_component_Inr_decode[OF Inr] by (auto simp: encode_reference_def)
qed

text \<open>
  \<open>encodeURIComponent\<close> fails exactly on input that is not well-formed
  UTF-16 (an unpaired surrogate), and then with \<open>URIError\<close>.
\<close>

lemma encode_uri_component_Inl_iff:
  "encode_uri_component s = Inl e \<longleftrightarrow> e = URIError \<and> utf16_decode s = None"
  by (cases "encode_uri_component s")
     (auto dest: encode_uri_component_Inl_decode encode_uri_component_Inr_decode)

lemma encode_uri_component_unreserved:
  "list_all uri_unreserved s \<Longrightarrow> encode_uri_component s = Inr (map (\<lambda>c. char_of (unat c)) s)"
  by (induction s) auto

subsection \<open>The output is URL-safe\<close>

lemma hex_digit_safe: "d < 16 \<Longrightarrow> uri_safe_char (hex_digit d)"
proof -
  have "\<forall>d\<in>set [0..<16]. uri_safe_char (hex_digit d)"
    by (simp add: upt_rec uri_safe_char_def hex_digit_def uri_unreserved_def)
  then show "d < 16 \<Longrightarrow> ?thesis" by simp
qed

lemma percent_sign_safe: "uri_safe_char CHR ''%''"
  by (simp add: uri_safe_char_def)

lemma percent_byte_safe: "\<forall>ch\<in>set (percent_byte b). uri_safe_char ch"
proof -
  have "unat b div 16 < 16" "unat b mod 16 < 16"
    using unsigned_less[of b, where ?'a = nat] by simp_all
  then show ?thesis
    by (simp add: percent_byte_def hex_digit_safe percent_sign_safe)
qed

lemma percent_all_safe: "\<forall>ch\<in>set (percent_all bs). uri_safe_char ch"
  using percent_byte_safe by (auto simp: percent_all_def)

lemma unreserved_char_safe: "uri_unreserved c \<Longrightarrow> uri_safe_char (char_of (unat c))"
  using uri_unreserved_ascii[of c] by (simp add: uri_safe_char_def)

theorem encode_uri_component_safe:
  "encode_uri_component s = Inr out \<Longrightarrow> \<forall>ch\<in>set out. uri_safe_char ch"
proof (induction s arbitrary: out rule: encode_uri_component.induct)
  case 1
  then show ?case by simp
next
  case (2 c cs)
  then show ?case
    by (auto simp: percent_all_safe unreserved_char_safe split: if_splits list.splits)
qed

subsection \<open>The length of the output\<close>

lemma hex_value_digit: "d < 16 \<Longrightarrow> hex_value (hex_digit d) = Some d"
proof -
  have "\<forall>d\<in>set [0..<16]. hex_value (hex_digit d) = Some d"
    by (simp add: upt_rec hex_value_def hex_digit_def)
  then show "d < 16 \<Longrightarrow> ?thesis" by simp
qed

lemma percent_decode_byte:
  "percent_decode (percent_byte b @ r) = map_option (Cons b) (percent_decode r)"
proof -
  have lt: "unat b div 16 < 16" "unat b mod 16 < 16"
    using unsigned_less[of b, where ?'a = nat] by simp_all
  have "16 * (unat b div 16) + unat b mod 16 = unat b" by simp
  then have "(of_nat (16 * (unat b div 16) + unat b mod 16) :: 8 word) = b" by simp
  with lt show ?thesis by (simp add: percent_byte_def hex_value_digit)
qed

lemma percent_decode_all:
  "percent_decode (percent_all bs @ r) = map_option ((@) bs) (percent_decode r)"
  by (induction bs) (simp_all add: percent_all_def percent_decode_byte option.map_comp comp_def option.map_ident)

lemma percent_decode_code_point:
  "percent_decode (encode_code_point cp @ r) = map_option ((@) (utf8_encode cp)) (percent_decode r)"
proof (cases "cp < 128 \<and> uri_unreserved (of_nat cp)")
  case True
  have "char_of cp \<noteq> CHR ''%''"
  proof
    assume "char_of cp = CHR ''%''"
    then have "of_char (char_of cp) = (37::nat)" by simp
    with True have "cp = 37" by simp
    with True show False by (simp add: uri_unreserved_def)
  qed
  with True show ?thesis
    by (simp add: encode_code_point_def utf8_encode_def append_singleton_fun)
next
  case False
  then have "encode_code_point cp = percent_all (utf8_encode cp)"
    unfolding encode_code_point_def by (rule if_not_P)
  then show ?thesis by (simp only: percent_decode_all)
qed

lemma percent_decode_code_points:
  "percent_decode (concat (map encode_code_point cps)) = Some (concat (map utf8_encode cps))"
  by (induction cps) (simp_all add: percent_decode_code_point)

text \<open>
  What \<open>encodeURIComponent\<close> produces percent-decodes to the UTF-8 bytes of
  the code points of its input: the server sees the term the user typed.
\<close>

lemma encode_uri_component_roundtrip:
  "encode_uri_component s = Inr out \<Longrightarrow>
   \<exists>cps. utf16_decode s = Some cps \<and> percent_decode out = Some (concat (map utf8_encode cps))"
  by (auto simp: percent_decode_code_points dest: encode_uri_component_Inr_decode)

end
