(* ===== verification/Catalog.thy ===== *)
theory Catalog
  imports Json UriEncode
begin

text \<open>
  The remote catalog client \<open>fetchTMDB\<close> (App.jsx lines 7--18) and the endpoint
  selection of \<open>fetchMovies\<close> (lines 42--44).  \<open>fetchTMDB\<close> is split at its
  \<open>await\<close>: \<open>tmdb_url\<close> is the URL it passes to \<open>fetch\<close>, and
  \<open>fetchTMDB_result\<close> is what the awaiting caller receives once the request settles.
  A settled request is a \<open>fetch_outcome\<close>: the \<open>fetch\<close> promise rejected (network
  failure), or a response with its status and its body as \<open>response.json()\<close> parses
  it (\<open>None\<close> for a body that is not JSON).  Nothing happens between the response and
  the parsed body that another part of the program could observe, so the two awaits of
  \<open>fetchTMDB\<close> are one step here.
  A small query-string reader (\<open>url_params\<close>) states what the server sees: the
  search URL carries exactly the parameters \<open>query\<close> and \<open>api_key\<close>, whatever the
  user typed.
\<close>

subsection \<open>Configuration and URLs\<close>

definition API_BASE_URL :: string where
  "API_BASE_URL = ''https://api.themoviedb.org/3''"

text \<open>
  \<open>import.meta.env.VITE_TMDB_API_KEY\<close> is \<open>undefined\<close> when the variable is not
  set; the template literal then writes the text \<open>undefined\<close>.
\<close>

definition template_key :: "string option \<Rightarrow> string" where
  "template_key k = (case k of None \<Rightarrow> ''undefined'' | Some s \<Rightarrow> s)"

definition tmdb_url :: "string option \<Rightarrow> string \<Rightarrow> string" where
  "tmdb_url key endpoint = API_BASE_URL @ endpoint @ ''&api_key='' @ template_key key"

text \<open>The endpoint of \<open>fetchMovies\<close>: an empty query (falsy) selects discover.\<close>

definition search_endpoint :: "js_string \<Rightarrow> js_error + string" where
  "search_endpoint query =
     (if query \<noteq> [] then map_sum id (\<lambda>e. ''/search/movie?query='' @ e) (encode_uri_component query)
      else Inr ''/discover/movie?sort_by=popularity.desc'')"

definition TRENDING_ENDPOINT :: string where
  "TRENDING_ENDPOINT = ''/trending/movie/week?''"

subsection \<open>Settled requests\<close>

datatype fetch_outcome =
    Rejected
  | Response int "json option"

definition response_ok :: "int \<Rightarrow> bool" where
  "response_ok status \<longleftrightarrow> 200 \<le> status \<and> status \<le> 299"

definition fetchTMDB_result :: "fetch_outcome \<Rightarrow> js_error + json" where
  "fetchTMDB_result r =
     (case r of
        Rejected \<Rightarrow> Inl NetworkError
      | Response status body \<Rightarrow>
          if \<not> response_ok status then Inl HttpError
          else (case body of None \<Rightarrow> Inl ParseError | Some data \<Rightarrow> Inr data))"

subsection \<open>Reading a URL's query string\<close>

fun split_on :: "char \<Rightarrow> string \<Rightarrow> string list" where
  "split_on c [] = [ [] ]"
| "split_on c (x # xs) =
     (if x = c then [] # split_on c xs
      else (let r = split_on c xs in (x # hd r) # tl r))"

definition url_query :: "string \<Rightarrow> string" where
  "url_query u = takeWhile (\<lambda>ch. ch \<noteq> CHR ''#'') (drop 1 (dropWhile (\<lambda>ch. ch \<noteq> CHR ''?'') u))"

definition url_path :: "string \<Rightarrow> string" where
  "url_path u = takeWhile (\<lambda>ch. ch \<noteq> CHR ''?'') u"

definition url_params :: "string \<Rightarrow> (string \<times> string) list" where
  "url_params u =
     map (\<lambda>p. (takeWhile (\<lambda>ch. ch \<noteq> CHR ''='') p, drop 1 (dropWhile (\<lambda>ch. ch \<noteq> CHR ''='') p)))
       (split_on CHR ''&'' (url_query u))"

subsection \<open>Lemmas\<close>

lemma split_on_none: "c \<notin> set xs \<Longrightarrow> split_on c xs = [xs]"
  by (induction xs) auto

lemma split_on_append: "c \<notin> set xs \<Longrightarrow> split_on c (xs @ c # ys) = xs # split_on c ys"
  by (induction xs) auto

lemma delims_not_safe:
  "\<not> uri_safe_char CHR ''&''" "\<not> uri_safe_char CHR ''#''" "\<not> uri_safe_char CHR ''?''" "\<not> uri_safe_char CHR ''=''"
  by (simp_all add: uri_safe_char_def uri_unreserved_def)

lemma uri_safe_not_delims:
  "\<forall>ch\<in>set e. uri_safe_char ch \<Longrightarrow> CHR ''&'' \<notin> set e \<and> CHR ''#'' \<notin> set e \<and> CHR ''?'' \<notin> set e \<and> CHR ''='' \<notin> set e"
  using delims_not_safe by blast

lemma url_params_tmdb:
  assumes "CHR ''?'' \<notin> set path" "CHR ''#'' \<notin> set q" "CHR ''#'' \<notin> set (template_key key)"
  shows "url_query (tmdb_url key (path @ CHR ''?'' # q)) = q @ ''&api_key='' @ template_key key"
  using assms by (simp add: tmdb_url_def url_query_def API_BASE_URL_def dropWhile_append takeWhile_append) blast

lemma url_params_single:
  assumes "CHR ''?'' \<notin> set path" "CHR ''='' \<notin> set name" "CHR ''&'' \<notin> set name" "CHR ''#'' \<notin> set name"
    "CHR ''&'' \<notin> set v" "CHR ''#'' \<notin> set v"
    "CHR ''&'' \<notin> set (template_key key)" "CHR ''#'' \<notin> set (template_key key)"
  shows "url_params (tmdb_url key (path @ CHR ''?'' # name @ CHR ''='' # v)) = [(name, v), (''api_key'', template_key key)]"
proof -
  have q: "url_query (tmdb_url key (path @ CHR ''?'' # name @ CHR ''='' # v)) = (name @ CHR ''='' # v) @ ''&api_key='' @ template_key key"
    using assms by (intro url_params_tmdb) auto
  have "split_on CHR ''&'' ((name @ CHR ''='' # v) @ CHR ''&'' # (''api_key='' @ template_key key))
      = (name @ CHR ''='' # v) # split_on CHR ''&'' (''api_key='' @ template_key key)"
    using assms by (intro split_on_append) auto
  also have "split_on CHR ''&'' (''api_key='' @ template_key key) = [''api_key='' @ template_key key]"
    using assms by (intro split_on_none) auto
  finally have sp: "split_on CHR ''&'' ((name @ CHR ''='' # v) @ ''&api_key='' @ template_key key)
      = [name @ CHR ''='' # v, ''api_key='' @ template_key key]" by simp
  show ?thesis
    using assms q sp by (simp add: url_params_def takeWhile_append dropWhile_append)
qed

text \<open>
  C17. For a non-empty search term that encodes, \<open>fetchMovies\<close> requests the
  search endpoint, and the URL passed to \<open>fetch\<close> carries exactly two query
  parameters: \<open>query\<close> with the percent-encoded term and \<open>api_key\<close>, whatever
  characters (\<open>&\<close>, \<open>=\<close>, \<open>#\<close>, non-ASCII) the term contains.
\<close>

theorem search_url_params:
  assumes enc: "encode_uri_component q = Inr e"
    and ne: "q \<noteq> []"
    and key: "CHR ''&'' \<notin> set (template_key key)" "CHR ''#'' \<notin> set (template_key key)"
  shows "search_endpoint q = Inr (''/search/movie?query='' @ e)
    \<and> url_path (tmdb_url key (''/search/movie?query='' @ e)) = API_BASE_URL @ ''/search/movie''
    \<and> url_params (tmdb_url key (''/search/movie?query='' @ e)) = [(''query'', e), (''api_key'', template_key key)]"
proof -
  have safe: "CHR ''&'' \<notin> set e" "CHR ''#'' \<notin> set e"
    using uri_safe_not_delims[OF encode_uri_component_safe[OF enc]] by auto
  have "url_params (tmdb_url key (''/search/movie'' @ CHR ''?'' # ''query'' @ CHR ''='' # e))
      = [(''query'', e), (''api_key'', template_key key)]"
    using safe key by (intro url_params_single) simp_all
  with enc ne show ?thesis
    by (simp add: search_endpoint_def url_path_def tmdb_url_def API_BASE_URL_def)
qed

theorem search_url_params_witness:
  "encode_uri_component [0x61, 0x26] = Inr ''a%26'' \<and>
   url_params (tmdb_url (Some ''k'') (''/search/movie?query='' @ ''a%26'')) = [(''query'', ''a%26''), (''api_key'', ''k'')]"
proof -
  have e: "encode_uri_component [0x61, 0x26] = Inr ''a%26''" by code_simp
  have k: "CHR ''&'' \<notin> set (template_key (Some ''k''))" "CHR ''#'' \<notin> set (template_key (Some ''k''))"
    by (simp_all add: template_key_def)
  have ne: "[0x61, 0x26 :: 16 word] \<noteq> []" by simp
  have t: "template_key (Some ''k'') = ''k''" by (simp add: template_key_def)
  from search_url_params[OF e ne k] e show ?thesis by (simp only: t simp_thms)
qed

text \<open>
  C18. An empty search term selects the discover endpoint sorted by popularity, and
  its URL carries exactly the parameters \<open>sort_by=popularity.desc\<close> and
  \<open>api_key\<close>.
\<close>

theorem discover_url_params:
  assumes "CHR ''&'' \<notin> set (template_key key)" and "CHR ''#'' \<notin> set (template_key key)"
  shows "search_endpoint [] = Inr ''/discover/movie?sort_by=popularity.desc''
    \<and> url_path (tmdb_url key ''/discover/movie?sort_by=popularity.desc'') = API_BASE_URL @ ''/discover/movie''
    \<and> url_params (tmdb_url key ''/discover/movie?sort_by=popularity.desc'')
        = [(''sort_by'', ''popularity.desc''), (''api_key'', template_key key)]"
proof -
  have "url_params (tmdb_url key (''/discover/movie'' @ CHR ''?'' # ''sort_by'' @ CHR ''='' # ''popularity.desc''))
      = [(''sort_by'', ''popularity.desc''), (''api_key'', template_key key)]"
    using assms by (intro url_params_single) simp_all
  then show ?thesis by (simp add: search_endpoint_def url_path_def tmdb_url_def API_BASE_URL_def)
qed

theorem discover_url_params_witness:
  "url_params (tmdb_url None ''/discover/movie?sort_by=popularity.desc'')
     = [(''sort_by'', ''popularity.desc''), (''api_key'', ''undefined'')]"
proof -
  have k: "CHR ''&'' \<notin> set (template_key None)" "CHR ''#'' \<notin> set (template_key None)"
    by (simp_all add: template_key_def)
  have t: "template_key None = ''undefined''" by (simp add: template_key_def)
  from discover_url_params[OF k] show ?thesis by (simp only: t simp_thms)
qed

lemma fetchTMDB_result_not_ok:
  "\<not> response_ok status \<Longrightarrow> fetchTMDB_result (Response status body) = Inl HttpError"
  by (simp add: fetchTMDB_result_def)

end
