(* ===== verification/Orchestrator.thy ===== *)
theory Orchestrator
  imports Catalog
begin

text \<open>
  The two orchestrators of App.jsx: \<open>fetchMovies\<close> (lines 36--54, the search stream)
  and \<open>loadTrendingMovies\<close> (lines 57--70, the trending stream).  Each owns three
  \<open>useState\<close> cells (lines 24--30), modelled as one \<open>stream\<close> record: the list
  (\<open>movieList\<close>/\<open>trendingMovies\<close>), the error message
  (\<open>errorMessage\<close>/\<open>trendingErrorMsg\<close>, \<open>null\<close> at first) and the loading flag.
  An async function runs in two halves split by its \<open>await\<close>:
  \<^item> the \<open>_begin\<close> half runs synchronously when the function is called: it sets the
    loading flag, clears the message, computes the endpoint and calls \<open>fetch\<close>;
    an exception thrown before the \<open>await\<close> (\<open>encodeURIComponent\<close>'s
    \<open>URIError\<close>) runs \<open>catch\<close> and \<open>finally\<close> at once;
  \<^item> the \<open>_end\<close> half runs when the request settles: the \<open>try\<close> block's rest,
    or \<open>catch\<close>, then \<open>finally\<close>.
  What a half does outside its own cells is returned as a list of \<open>effect\<close>s, the
  interface to the application model (theory \<open>App\<close>): a request handed to
  \<open>fetch\<close>, or a \<open>console.error\<close> line.
  The spec's \<open>FetchState\<close> (Idle, Loading, Success, Failure) is the abstraction
  \<open>stream_abs\<close> of a stream, read the way the view reads it (spinner first, then a
  non-empty message, then the list); the lemmas at the end show that each half refines
  the spec's transition, the settling half under the hypothesis that no other request
  of the same stream has written the message in between.
\<close>

subsection \<open>State and effects\<close>

record stream =
  items :: json
  err :: "string option"
  loading :: bool

definition initial_stream :: stream where
  "initial_stream = \<lparr>items = JArr [], err = None, loading = False\<rparr>"

datatype effect =
    IssueFetch string
  | LogError string js_error

definition SEARCH_ERROR :: string where
  "SEARCH_ERROR = ''Error fetching movies.''"

definition TRENDING_ERROR :: string where
  "TRENDING_ERROR = ''Error fetching trending movies!''"

definition SEARCH_LOG :: string where
  "SEARCH_LOG = ''Error fetching movies:''"

definition TRENDING_LOG :: string where
  "TRENDING_LOG = ''Error fetching trending movies:''"

subsection \<open>The two halves of the orchestrators\<close>

text \<open>\<open>setIsLoading(true); setErrorMessage("")\<close>: the first statements of both functions.\<close>

definition fetch_start :: "stream \<Rightarrow> stream" where
  "fetch_start st = st\<lparr>loading := True, err := Some []\<rparr>"

text \<open>\<open>catch\<close> (log, set the message) followed by \<open>finally\<close> (clear the flag).\<close>

definition fetch_catch :: "string \<Rightarrow> string \<Rightarrow> js_error \<Rightarrow> stream \<Rightarrow> stream \<times> effect list" where
  "fetch_catch label msg e st = (st\<lparr>err := Some msg, loading := False\<rparr>, [LogError label e])"

text \<open>
  What the awaiting caller gets from \<open>await fetchTMDB(endpoint)\<close> followed by
  \<open>data.results || []\<close>.
\<close>

definition awaited_results :: "fetch_outcome \<Rightarrow> js_error + json" where
  "awaited_results r = sum_bind (fetchTMDB_result r) results_of"

text \<open>
  The rest of the \<open>try\<close> block after the \<open>await\<close>
  (\<open>setMovieList(data.results || [])\<close>), or \<open>catch\<close>; then \<open>finally\<close>.
\<close>

definition fetch_settle :: "string \<Rightarrow> string \<Rightarrow> js_error + json \<Rightarrow> stream \<Rightarrow> stream \<times> effect list" where
  "fetch_settle label msg res st =
     (case res of
        Inl e \<Rightarrow> fetch_catch label msg e st
      | Inr v \<Rightarrow> (st\<lparr>items := v, loading := False\<rparr>, []))"

definition fetchMovies_begin :: "string option \<Rightarrow> js_string \<Rightarrow> stream \<Rightarrow> stream \<times> effect list" where
  "fetchMovies_begin key query st =
     (let st1 = fetch_start st in
      case search_endpoint query of
        Inl e \<Rightarrow> fetch_catch SEARCH_LOG SEARCH_ERROR e st1
      | Inr endpoint \<Rightarrow> (st1, [IssueFetch (tmdb_url key endpoint)]))"

definition fetchMovies_end :: "fetch_outcome \<Rightarrow> stream \<Rightarrow> stream \<times> effect list" where
  "fetchMovies_end r st = fetch_settle SEARCH_LOG SEARCH_ERROR (awaited_results r) st"

definition loadTrendingMovies_begin :: "string option \<Rightarrow> stream \<Rightarrow> stream \<times> effect list" where
  "loadTrendingMovies_begin key st = (fetch_start st, [IssueFetch (tmdb_url key TRENDING_ENDPOINT)])"

definition loadTrendingMovies_end :: "fetch_outcome \<Rightarrow> stream \<Rightarrow> stream \<times> effect list" where
  "loadTrendingMovies_end r st = fetch_settle TRENDING_LOG TRENDING_ERROR (awaited_results r) st"

subsection \<open>The spec's FetchState and the abstraction\<close>

datatype 'a fetch_state = Idle | Loading | Success 'a | Failure string

definition stream_abs :: "stream \<Rightarrow> json fetch_state" where
  "stream_abs st =
     (if loading st then Loading
      else case err st of
             None \<Rightarrow> Idle
           | Some m \<Rightarrow> if m = [] then Success (items st) else Failure m)"

text \<open>The spec's transition when a request settles.\<close>

definition fs_settle :: "string \<Rightarrow> js_error + 'a \<Rightarrow> 'a fetch_state" where
  "fs_settle msg res = (case res of Inl e \<Rightarrow> Failure msg | Inr v \<Rightarrow> Success v)"

text \<open>
  The per-stream invariant: the loading flag is only ever set together with an empty
  message, and the stored list is truthy (the view never sees \<open>null\<close> there).
\<close>

definition stream_inv :: "stream \<Rightarrow> bool" where
  "stream_inv st \<longleftrightarrow> (loading st \<longrightarrow> err st = Some []) \<and> js_truthy (items st)"

lemmas orchestrator_simps [model_simps] =
  fetch_start_def fetch_catch_def fetch_settle_def awaited_results_def
  fetchMovies_begin_def fetchMovies_end_def loadTrendingMovies_begin_def loadTrendingMovies_end_def

subsection \<open>Lemmas: invariant, effects, refinement\<close>

lemma awaited_results_truthy: "awaited_results r = Inr v \<Longrightarrow> js_truthy v"
  by (auto simp: awaited_results_def sum_bind_def results_of_truthy split: sum.splits)

lemma awaited_results_Inr_iff:
  "awaited_results r = Inr v \<longleftrightarrow>
   (\<exists>status data. r = Response status (Some data) \<and> response_ok status \<and> results_of data = Inr v)"
  by (cases r) (auto simp: awaited_results_def fetchTMDB_result_def split: option.splits)

lemma stream_inv_initial: "stream_inv initial_stream"
  by (simp add: stream_inv_def initial_stream_def)

lemma stream_inv_start: "js_truthy (items st) \<Longrightarrow> stream_inv (fetch_start st)"
  by (simp add: stream_inv_def fetch_start_def)

lemma stream_inv_catch: "stream_inv st \<Longrightarrow> stream_inv (fst (fetch_catch label msg e st))"
  by (simp add: stream_inv_def fetch_catch_def)

lemma stream_inv_settle:
  "stream_inv st \<Longrightarrow> (\<And>v. res = Inr v \<Longrightarrow> js_truthy v) \<Longrightarrow> stream_inv (fst (fetch_settle label msg res st))"
  by (auto simp: stream_inv_def fetch_settle_def fetch_catch_def split: sum.splits)

lemma stream_inv_fetchMovies_begin: "stream_inv st \<Longrightarrow> stream_inv (fst (fetchMovies_begin key q st))"
  by (auto simp: fetchMovies_begin_def Let_def stream_inv_def fetch_start_def fetch_catch_def split: sum.splits)

lemma stream_inv_fetchMovies_end: "stream_inv st \<Longrightarrow> stream_inv (fst (fetchMovies_end r st))"
  unfolding fetchMovies_end_def by (rule stream_inv_settle) (auto dest: awaited_results_truthy)

lemma stream_inv_loadTrendingMovies_begin: "stream_inv st \<Longrightarrow> stream_inv (fst (loadTrendingMovies_begin key st))"
  by (simp add: loadTrendingMovies_begin_def stream_inv_def fetch_start_def)

lemma stream_inv_loadTrendingMovies_end: "stream_inv st \<Longrightarrow> stream_inv (fst (loadTrendingMovies_end r st))"
  unfolding loadTrendingMovies_end_def by (rule stream_inv_settle) (auto dest: awaited_results_truthy)

lemma settle_not_loading: "\<not> loading (fst (fetch_settle label msg res st))"
  by (simp add: fetch_settle_def fetch_catch_def split: sum.splits)

lemma settle_effects:
  "snd (fetch_settle label msg res st) = (case res of Inl e \<Rightarrow> [LogError label e] | Inr v \<Rightarrow> [])"
  by (simp add: fetch_settle_def fetch_catch_def split: sum.splits)

lemma messages_nonempty: "SEARCH_ERROR \<noteq> []" "TRENDING_ERROR \<noteq> []"
  by (simp_all add: SEARCH_ERROR_def TRENDING_ERROR_def)

lemma fetch_settle_abs:
  "err st = Some [] \<Longrightarrow> msg \<noteq> [] \<Longrightarrow> stream_abs (fst (fetch_settle label msg res st)) = fs_settle msg res"
  by (simp add: stream_abs_def fs_settle_def fetch_settle_def fetch_catch_def split: sum.splits)

lemma fetchMovies_begin_abs:
  "stream_abs (fst (fetchMovies_begin key q st)) =
   (case search_endpoint q of Inl e \<Rightarrow> Failure SEARCH_ERROR | Inr ep \<Rightarrow> Loading)"
  by (simp add: fetchMovies_begin_def stream_abs_def fetch_start_def fetch_catch_def messages_nonempty split: sum.splits)

lemma loadTrendingMovies_begin_abs: "stream_abs (fst (loadTrendingMovies_begin key st)) = Loading"
  by (simp add: loadTrendingMovies_begin_def stream_abs_def fetch_start_def)

lemma fetchMovies_begin_effects:
  "snd (fetchMovies_begin key q st) =
   (case search_endpoint q of Inl e \<Rightarrow> [LogError SEARCH_LOG e] | Inr ep \<Rightarrow> [IssueFetch (tmdb_url key ep)])"
  by (simp add: fetchMovies_begin_def fetch_catch_def split: sum.splits)

text \<open>
  C19. A successful response whose \<open>results\<close> field is absent or falsy is not an
  error: the list becomes the empty array and the loading flag is cleared, with nothing
  logged.
\<close>

theorem fetchMovies_end_falsy_results:
  assumes "response_ok status" and "\<forall>v. map_of (rev kvs) ''results'' = Some v \<longrightarrow> \<not> js_truthy v"
  shows "fetchMovies_end (Response status (Some (JObj kvs))) st = (st\<lparr>items := JArr [], loading := False\<rparr>, [])"
proof -
  have "or_empty (map_of (rev kvs) ''results'') = JArr []"
    using assms(2) by (auto simp: or_empty_def split: option.split)
  with assms(1) show ?thesis
    by (simp add: fetchMovies_end_def fetch_settle_def awaited_results_def fetchTMDB_result_def results_of_obj)
qed

theorem fetchMovies_end_falsy_results_witness:
  "fetchMovies_end (Response 200 (Some (JObj [(''page'', JNum 1), (''results'', JNull)]))) initial_stream
     = (initial_stream\<lparr>items := JArr [], loading := False\<rparr>, [])"
proof -
  have ok: "response_ok 200" by (simp add: response_ok_def)
  have f: "\<forall>v. map_of (rev [(''page'', JNum 1), (''results'', JNull)]) ''results'' = Some v \<longrightarrow> \<not> js_truthy v"
    by simp
  show ?thesis by (rule fetchMovies_end_falsy_results[OF ok f])
qed

text \<open>
  C21. One search request that starts and settles with no other request in between
  implements the spec's FetchState: it reads as Loading after the call, then as
  Success of the results or Failure with the fixed message.
\<close>

theorem search_refines_fetch_state:
  assumes "search_endpoint q = Inr ep"
  shows "stream_abs (fst (fetchMovies_begin key q st)) = Loading \<and>
    stream_abs (fst (fetchMovies_end r (fst (fetchMovies_begin key q st)))) = fs_settle SEARCH_ERROR (awaited_results r)"
proof -
  have b: "fst (fetchMovies_begin key q st) = fetch_start st"
    using assms by (simp add: fetchMovies_begin_def)
  have "err (fetch_start st) = Some []" by (simp add: fetch_start_def)
  with b messages_nonempty(1) show ?thesis
    by (simp add: fetchMovies_end_def fetch_settle_abs) (simp add: stream_abs_def fetch_start_def)
qed

theorem search_refines_fetch_state_witness:
  "search_endpoint [0x78] = Inr ''/search/movie?query=x'' \<and>
   stream_abs (fst (fetchMovies_end Rejected (fst (fetchMovies_begin None [0x78] initial_stream)))) = Failure SEARCH_ERROR"
proof -
  have e: "search_endpoint [0x78] = Inr ''/search/movie?query=x''"
    unfolding search_endpoint_def by code_simp
  show ?thesis using search_refines_fetch_state[OF e, of None initial_stream Rejected] e
    by (simp add: fs_settle_def awaited_results_def fetchTMDB_result_def)
qed

end
