(* ===== verification/App.thy ===== *)
theory App
  imports Orchestrator
begin

text \<open>
  The component \<open>App\<close> (App.jsx lines 20--78) as a state machine.  Its state is the
  eight \<open>useState\<close> cells (lines 21--30; the two streams are records of theory
  \<open>Orchestrator\<close>) together with what the browser keeps for it: the clock, the one
  pending timeout of \<open>useDebounce\<close> (line 33), the requests whose promises have not
  settled, the log of every URL passed to \<open>fetch\<close>, and the \<open>console.error\<close> log.
  The environment drives it by events:
  \<^item> \<open>Mount\<close>: the first commit; the effects run in declaration order: the
    debounce timer is armed (line 33), \<open>fetchMovies(debouncedSearchTerm)\<close>
    (lines 72--74), \<open>loadTrendingMovies()\<close> (lines 76--78);
  \<^item> \<open>Type v\<close>: the search box calls \<open>setSearchTerm(v)\<close> (line 90); React
    ignores a set to the current value, otherwise the new render changes the
    dependency \<open>[searchTerm]\<close> of \<open>useDebounce\<close>, which re-arms the timer;
  \<^item> \<open>Tick d\<close>: \<open>d\<close> milliseconds pass; a timer whose deadline has come fires
    \<open>setDebouncedSearchTerm(searchTerm)\<close>, and when that changes the value the
    effect of lines 72--74 calls \<open>fetchMovies\<close> with it;
  \<^item> \<open>Resolve i r\<close>: the request numbered \<open>i\<close> settles with outcome \<open>r\<close> and the
    suspended half of its orchestrator runs.
  Requests settle in any order the environment chooses; nothing in the code cancels or
  orders them.  The effect triggered by a fired timer is taken to run before the next
  event, and a mount happens once (no development-mode double effects).
\<close>

subsection \<open>State\<close>

datatype request_kind = SearchRequest | TrendingRequest

record app_state =
  searchTerm :: js_string
  debouncedSearchTerm :: js_string
  movies :: stream
  trending :: stream
  api_key :: "string option"
  clock :: time
  debounce_deadline :: "time option"
  inflight :: "(nat \<times> request_kind) list"
  next_id :: nat
  requests :: "(nat \<times> request_kind \<times> string) list"
  console :: "(string \<times> js_error) list"
  mounted :: bool

definition DEBOUNCE_MS :: nat where
  "DEBOUNCE_MS = 700"

definition initial_app :: "string option \<Rightarrow> app_state" where
  "initial_app key =
     \<lparr>searchTerm = [], debouncedSearchTerm = [], movies = initial_stream,
      trending = initial_stream, api_key = key, clock = 0, debounce_deadline = None,
      inflight = [], next_id = 0, requests = [], console = [], mounted = False\<rparr>"

subsection \<open>Effects of the orchestrators on the runtime\<close>

fun apply_effect :: "request_kind \<Rightarrow> effect \<Rightarrow> app_state \<Rightarrow> app_state" where
  "apply_effect k (IssueFetch url) s =
     s\<lparr>inflight := inflight s @ [(next_id s, k)],
       requests := requests s @ [(next_id s, k, url)],
       next_id := Suc (next_id s)\<rparr>"
| "apply_effect k (LogError label e) s = s\<lparr>console := console s @ [(label, e)]\<rparr>"

definition apply_effects :: "request_kind \<Rightarrow> effect list \<Rightarrow> app_state \<Rightarrow> app_state" where
  "apply_effects k es s = fold (apply_effect k) es s"

text \<open>Calling \<open>fetchMovies(query)\<close>: its synchronous half.\<close>

definition run_fetchMovies :: "js_string \<Rightarrow> app_state \<Rightarrow> app_state" where
  "run_fetchMovies query s =
     (case fetchMovies_begin (api_key s) query (movies s) of
        (st, es) \<Rightarrow> apply_effects SearchRequest es (s\<lparr>movies := st\<rparr>))"

text \<open>Calling \<open>loadTrendingMovies()\<close>: its synchronous half.\<close>

definition run_loadTrendingMovies :: "app_state \<Rightarrow> app_state" where
  "run_loadTrendingMovies s =
     (case loadTrendingMovies_begin (api_key s) (trending s) of
        (st, es) \<Rightarrow> apply_effects TrendingRequest es (s\<lparr>trending := st\<rparr>))"

subsection \<open>Event handlers\<close>

definition app_mount :: "app_state \<Rightarrow> app_state" where
  "app_mount s =
     (if mounted s then s
      else run_loadTrendingMovies
             (run_fetchMovies (debouncedSearchTerm s)
               (s\<lparr>mounted := True, debounce_deadline := Some (clock s + DEBOUNCE_MS)\<rparr>)))"

definition app_type :: "js_string \<Rightarrow> app_state \<Rightarrow> app_state" where
  "app_type v s =
     (if \<not> mounted s \<or> v = searchTerm s then s
      else s\<lparr>searchTerm := v, debounce_deadline := Some (clock s + DEBOUNCE_MS)\<rparr>)"

text \<open>
  The debounce callback \<open>() => setDebouncedSearchTerm(searchTerm)\<close> with the latest
  render's \<open>searchTerm\<close>, and the effect on \<open>[debouncedSearchTerm]\<close> it triggers.
\<close>

definition debounce_fire :: "app_state \<Rightarrow> app_state" where
  "debounce_fire s =
     (let s1 = s\<lparr>debounce_deadline := None\<rparr> in
      if searchTerm s1 = debouncedSearchTerm s1 then s1
      else run_fetchMovies (searchTerm s1) (s1\<lparr>debouncedSearchTerm := searchTerm s1\<rparr>))"

definition app_tick :: "nat \<Rightarrow> app_state \<Rightarrow> app_state" where
  "app_tick d s =
     (let s1 = s\<lparr>clock := clock s + d\<rparr> in
      case debounce_deadline s1 of
        None \<Rightarrow> s1
      | Some t \<Rightarrow> if t \<le> clock s1 then debounce_fire s1 else s1)"

text \<open>The suspended half of the orchestrator that issued request \<open>i\<close>.\<close>

definition app_resolve :: "nat \<Rightarrow> fetch_outcome \<Rightarrow> app_state \<Rightarrow> app_state" where
  "app_resolve i r s =
     (case map_of (inflight s) i of
        None \<Rightarrow> s
      | Some SearchRequest \<Rightarrow>
          (let s1 = s\<lparr>inflight := remove1 (i, SearchRequest) (inflight s)\<rparr> in
           case fetchMovies_end r (movies s1) of
             (st, es) \<Rightarrow> apply_effects SearchRequest es (s1\<lparr>movies := st\<rparr>))
      | Some TrendingRequest \<Rightarrow>
          (let s1 = s\<lparr>inflight := remove1 (i, TrendingRequest) (inflight s)\<rparr> in
           case loadTrendingMovies_end r (trending s1) of
             (st, es) \<Rightarrow> apply_effects TrendingRequest es (s1\<lparr>trending := st\<rparr>)))"

datatype event =
    Mount
  | Type js_string
  | Tick nat
  | Resolve nat fetch_outcome

fun app_step :: "app_state \<Rightarrow> event \<Rightarrow> app_state" where
  "app_step s Mount = app_mount s"
| "app_step s (Type v) = app_type v s"
| "app_step s (Tick d) = app_tick d s"
| "app_step s (Resolve i r) = app_resolve i r s"

fun app_run :: "app_state \<Rightarrow> event list \<Rightarrow> app_state" where
  "app_run s [] = s"
| "app_run s (e # es) = app_run (app_step s e) es"

inductive reachable :: "app_state \<Rightarrow> bool" where
  init: "reachable (initial_app key)"
| step: "reachable s \<Longrightarrow> reachable (app_step s e)"

subsection \<open>Observations\<close>

definition kind_requests :: "request_kind \<Rightarrow> app_state \<Rightarrow> (nat \<times> request_kind \<times> string) list" where
  "kind_requests k s = filter (\<lambda>(i, k', u). k' = k) (requests s)"

definition kind_inflight :: "request_kind \<Rightarrow> app_state \<Rightarrow> (nat \<times> request_kind) list" where
  "kind_inflight k s = filter (\<lambda>(i, k'). k' = k) (inflight s)"

text \<open>A burst of keystrokes, each followed by a pause, and the condition that each keystroke changes the term.\<close>

fun burst :: "(js_string \<times> nat) list \<Rightarrow> event list" where
  "burst [] = []"
| "burst ((v, d) # ks) = Type v # Tick d # burst ks"

fun keystrokes_change :: "js_string \<Rightarrow> js_string list \<Rightarrow> bool" where
  "keystrokes_change cur [] = True"
| "keystrokes_change cur (v # vs) = (v \<noteq> cur \<and> keystrokes_change v vs)"

text \<open>The search request that calling \<open>fetchMovies(q)\<close> in state \<open>s\<close> adds to the log.\<close>

definition search_fetch_of :: "app_state \<Rightarrow> js_string \<Rightarrow> (nat \<times> request_kind \<times> string) list" where
  "search_fetch_of s q =
     (case search_endpoint q of Inl e \<Rightarrow> [] | Inr ep \<Rightarrow> [(next_id s, SearchRequest, tmdb_url (api_key s) ep)])"

subsection \<open>The application invariant\<close>

text \<open>
  What every reachable state satisfies: both streams keep their invariant; request
  numbers are unique and below the counter; the search spinner is on only while a
  search request is pending; the trending request was issued exactly once after
  mounting, is pending at most once, and the trending spinner is on exactly while it
  is pending; before mounting nothing has happened.
\<close>

definition app_inv :: "app_state \<Rightarrow> bool" where
  "app_inv s \<longleftrightarrow>
     stream_inv (movies s) \<and> stream_inv (trending s) \<and>
     distinct (map fst (inflight s)) \<and> (\<forall>p\<in>set (inflight s). fst p < next_id s) \<and>
     (loading (movies s) \<longrightarrow> kind_inflight SearchRequest s \<noteq> []) \<and>
     length (kind_requests TrendingRequest s) = (if mounted s then 1 else 0) \<and>
     length (kind_inflight TrendingRequest s) \<le> 1 \<and>
     (loading (trending s) \<longleftrightarrow> kind_inflight TrendingRequest s \<noteq> []) \<and>
     (\<not> mounted s \<longrightarrow> inflight s = [] \<and> requests s = [] \<and> debounce_deadline s = None \<and>
        \<not> loading (movies s) \<and> \<not> loading (trending s))"

subsection \<open>Handlers in closed form\<close>

lemma apply_effects_frame [simp]:
  "searchTerm (apply_effects k es s) = searchTerm s \<and>
   debouncedSearchTerm (apply_effects k es s) = debouncedSearchTerm s \<and>
   movies (apply_effects k es s) = movies s \<and> trending (apply_effects k es s) = trending s \<and>
   api_key (apply_effects k es s) = api_key s \<and> clock (apply_effects k es s) = clock s \<and>
   debounce_deadline (apply_effects k es s) = debounce_deadline s \<and>
   mounted (apply_effects k es s) = mounted s"
proof (induction es arbitrary: s)
  case Nil
  then show ?case by (simp add: apply_effects_def)
next
  case (Cons e es)
  then show ?case by (cases e) (simp_all add: apply_effects_def)
qed

lemma apply_effects_single [simp]: "apply_effects k [e] s = apply_effect k e s"
  by (simp add: apply_effects_def)

lemma apply_effects_nil [simp]: "apply_effects k [] s = s"
  by (simp add: apply_effects_def)

lemma run_fetchMovies_Inr:
  "search_endpoint q = Inr ep \<Longrightarrow>
   run_fetchMovies q s =
     s\<lparr>movies := fetch_start (movies s), inflight := inflight s @ [(next_id s, SearchRequest)],
       requests := requests s @ [(next_id s, SearchRequest, tmdb_url (api_key s) ep)],
       next_id := Suc (next_id s)\<rparr>"
  by (simp add: run_fetchMovies_def fetchMovies_begin_def)

lemma run_fetchMovies_Inl:
  "search_endpoint q = Inl e \<Longrightarrow>
   run_fetchMovies q s =
     s\<lparr>movies := fst (fetch_catch SEARCH_LOG SEARCH_ERROR e (fetch_start (movies s))),
       console := console s @ [(SEARCH_LOG, e)]\<rparr>"
  by (simp add: run_fetchMovies_def fetchMovies_begin_def fetch_catch_def)

lemma run_loadTrendingMovies_eq:
  "run_loadTrendingMovies s =
     s\<lparr>trending := fetch_start (trending s), inflight := inflight s @ [(next_id s, TrendingRequest)],
       requests := requests s @ [(next_id s, TrendingRequest, tmdb_url (api_key s) TRENDING_ENDPOINT)],
       next_id := Suc (next_id s)\<rparr>"
  by (simp add: run_loadTrendingMovies_def loadTrendingMovies_begin_def)

lemma app_resolve_search:
  "map_of (inflight s) i = Some SearchRequest \<Longrightarrow>
   app_resolve i r s =
     s\<lparr>inflight := remove1 (i, SearchRequest) (inflight s),
       movies := fst (fetchMovies_end r (movies s)),
       console := console s @ (case awaited_results r of Inl e \<Rightarrow> [(SEARCH_LOG, e)] | Inr v \<Rightarrow> [])\<rparr>"
  by (simp add: app_resolve_def fetchMovies_end_def fetch_settle_def fetch_catch_def split: sum.splits)

lemma app_resolve_trending:
  "map_of (inflight s) i = Some TrendingRequest \<Longrightarrow>
   app_resolve i r s =
     s\<lparr>inflight := remove1 (i, TrendingRequest) (inflight s),
       trending := fst (loadTrendingMovies_end r (trending s)),
       console := console s @ (case awaited_results r of Inl e \<Rightarrow> [(TRENDING_LOG, e)] | Inr v \<Rightarrow> [])\<rparr>"
  by (simp add: app_resolve_def loadTrendingMovies_end_def fetch_settle_def fetch_catch_def split: sum.splits)

lemma app_resolve_none: "map_of (inflight s) i = None \<Longrightarrow> app_resolve i r s = s"
  by (simp add: app_resolve_def)


subsection \<open>Every reachable state satisfies the invariant\<close>

lemma app_inv_initial: "app_inv (initial_app key)"
  using stream_inv_initial by (simp add: app_inv_def initial_app_def kind_requests_def kind_inflight_def initial_stream_def)

lemma fresh_entry:
  "distinct (map fst xs) \<Longrightarrow> \<forall>p\<in>set xs. fst p < n \<Longrightarrow>
   distinct (map fst (xs @ [(n, k)])) \<and> (\<forall>p\<in>set (xs @ [(n, k)]). fst p < Suc n)"
  by auto

lemma app_inv_type: "app_inv s \<Longrightarrow> app_inv (app_type v s)"
  by (simp add: app_type_def app_inv_def kind_requests_def kind_inflight_def)

lemma app_inv_run_fetchMovies:
  assumes "app_inv s" "mounted s"
  shows "app_inv (run_fetchMovies q s)"
proof (cases "search_endpoint q")
  case (Inl e)
  with assms show ?thesis
    by (simp add: run_fetchMovies_Inl app_inv_def kind_requests_def kind_inflight_def
        fetch_catch_def fetch_start_def stream_inv_def)
next
  case (Inr ep)
  with assms show ?thesis
    by (auto simp: run_fetchMovies_Inr app_inv_def kind_requests_def kind_inflight_def
        fetch_start_def stream_inv_def)
qed

lemma app_inv_fire: "app_inv s \<Longrightarrow> mounted s \<Longrightarrow> app_inv (debounce_fire s)"
proof -
  assume inv: "app_inv s" and m: "mounted s"
  let ?s1 = "s\<lparr>debounce_deadline := None\<rparr>"
  have inv1: "app_inv ?s1" "app_inv (?s1\<lparr>debouncedSearchTerm := searchTerm s\<rparr>)"
    using inv by (simp_all add: app_inv_def kind_requests_def kind_inflight_def)
  show ?thesis
    using app_inv_run_fetchMovies[OF inv1(2)] inv1(1) m by (simp add: debounce_fire_def Let_def)
qed

lemma app_inv_tick: "app_inv s \<Longrightarrow> app_inv (app_tick d s)"
proof -
  assume inv: "app_inv s"
  let ?s1 = "s\<lparr>clock := clock s + d\<rparr>"
  have inv1: "app_inv ?s1"
    using inv by (simp add: app_inv_def kind_requests_def kind_inflight_def)
  show ?thesis
  proof (cases "mounted s")
    case True
    then show ?thesis
      using inv1 app_inv_fire[OF inv1] by (simp add: app_tick_def Let_def split: option.split)
  next
    case False
    with inv have "debounce_deadline s = None" by (simp add: app_inv_def)
    with inv1 show ?thesis by (simp add: app_tick_def)
  qed
qed


lemma app_inv_mount: "app_inv s \<Longrightarrow> app_inv (app_mount s)"
proof (cases "mounted s")
  case True
  assume "app_inv s"
  with True show ?thesis by (simp add: app_mount_def)
next
  case False
  assume inv: "app_inv s"
  have pre: "inflight s = []" "requests s = []" "\<not> loading (movies s)" "\<not> loading (trending s)"
    "js_truthy (items (movies s))" "js_truthy (items (trending s))"
    using inv False unfolding app_inv_def stream_inv_def by blast+
  show ?thesis
  proof (cases "search_endpoint (debouncedSearchTerm s)")
    case (Inl e)
    with False pre show ?thesis
      by (simp add: app_mount_def run_fetchMovies_Inl run_loadTrendingMovies_eq app_inv_def
          kind_requests_def kind_inflight_def fetch_catch_def fetch_start_def stream_inv_def)
  next
    case (Inr ep)
    with False pre show ?thesis
      by (simp add: app_mount_def run_fetchMovies_Inr run_loadTrendingMovies_eq app_inv_def
          kind_requests_def kind_inflight_def fetch_start_def stream_inv_def)
  qed
qed

lemma app_inv_resolve: "app_inv s \<Longrightarrow> app_inv (app_resolve i r s)"
proof (cases "map_of (inflight s) i")
  case None
  assume "app_inv s"
  with None show ?thesis by (simp add: app_resolve_none)
next
  case (Some k)
  assume inv: "app_inv s"
  from Some have mem: "(i, k) \<in> set (inflight s)" by (rule map_of_SomeD)
  have ids: "distinct (map fst (remove1 (i, k) (inflight s)))"
    "\<forall>p\<in>set (remove1 (i, k) (inflight s)). fst p < next_id s"
    using inv distinct_map_remove1 set_remove1_subset by (fastforce simp: app_inv_def)+
  show ?thesis
  proof (cases k)
    case SearchRequest
    have "stream_inv (fst (fetchMovies_end r (movies s)))"
      using inv stream_inv_fetchMovies_end by (simp add: app_inv_def)
    moreover have "\<not> loading (fst (fetchMovies_end r (movies s)))"
      by (simp add: fetchMovies_end_def settle_not_loading)
    moreover have "filter (\<lambda>(i, k'). k' = TrendingRequest) (remove1 (i, SearchRequest) (inflight s))
        = filter (\<lambda>(i, k'). k' = TrendingRequest) (inflight s)"
      by (rule filter_remove1_other) simp
    ultimately show ?thesis
      using inv ids Some SearchRequest mem
      by (simp add: app_resolve_search app_inv_def kind_requests_def kind_inflight_def)
  next
    case TrendingRequest
    have "stream_inv (fst (loadTrendingMovies_end r (trending s)))"
      using inv stream_inv_loadTrendingMovies_end by (simp add: app_inv_def)
    moreover have "\<not> loading (fst (loadTrendingMovies_end r (trending s)))"
      by (simp add: loadTrendingMovies_end_def settle_not_loading)
    moreover have "filter (\<lambda>(i, k'). k' = SearchRequest) (remove1 (i, TrendingRequest) (inflight s))
        = filter (\<lambda>(i, k'). k' = SearchRequest) (inflight s)"
      by (rule filter_remove1_other) simp
    moreover have "filter (\<lambda>(i, k'). k' = TrendingRequest) (remove1 (i, TrendingRequest) (inflight s)) = []"
      using inv mem TrendingRequest
      by (intro filter_remove1_single) (simp_all add: app_inv_def kind_inflight_def)
    ultimately show ?thesis
      using inv ids Some TrendingRequest mem
      by (simp add: app_resolve_trending app_inv_def kind_requests_def kind_inflight_def)
  qed
qed

lemma app_inv_step: "app_inv s \<Longrightarrow> app_inv (app_step s e)"
  by (cases e) (simp_all add: app_inv_mount app_inv_type app_inv_tick app_inv_resolve)

lemma reachable_app_inv: "reachable s \<Longrightarrow> app_inv s"
proof (induction rule: reachable.induct)
  case (init key)
  show ?case by (rule app_inv_initial)
next
  case (step s e)
  from step.IH show ?case by (rule app_inv_step)
qed


subsection \<open>Runs and frame lemmas\<close>

lemma reachable_run: "reachable s \<Longrightarrow> reachable (app_run s es)"
  by (induction es arbitrary: s) (auto intro: reachable.step)

lemma trending_run_fetchMovies [simp]: "trending (run_fetchMovies q s) = trending s"
  by (simp add: run_fetchMovies_def split: prod.split)

lemma trending_debounce_fire [simp]: "trending (debounce_fire s) = trending s"
  by (simp add: debounce_fire_def Let_def)

lemma trending_app_tick [simp]: "trending (app_tick d s) = trending s"
  by (simp add: app_tick_def Let_def split: option.split)

lemma inflight_kind_mem: "map_of (inflight s) i = Some k \<Longrightarrow> kind_inflight k s \<noteq> []"
  by (auto simp: kind_inflight_def filter_empty_conv dest!: map_of_SomeD)


subsection \<open>The debounce timer and the search effect\<close>

lemma app_run_append: "app_run s (xs @ ys) = app_run (app_run s xs) ys"
  by (induction xs arbitrary: s) auto

lemma type_then_quiet_tick:
  assumes "mounted s" "v \<noteq> searchTerm s" "d < DEBOUNCE_MS"
  shows "app_step (app_step s (Type v)) (Tick d) =
    s\<lparr>searchTerm := v, debounce_deadline := Some (clock s + DEBOUNCE_MS), clock := clock s + d\<rparr>"
  using assms by (simp add: app_type_def app_tick_def Let_def)

lemma burst_run:
  assumes "mounted s" "ks \<noteq> []" "\<forall>p\<in>set ks. snd p < DEBOUNCE_MS" "keystrokes_change (searchTerm s) (map fst ks)"
  shows "\<exists>c. app_run s (burst ks) =
    s\<lparr>searchTerm := fst (last ks), debounce_deadline := Some (c + DEBOUNCE_MS), clock := c + snd (last ks)\<rparr>"
  using assms
proof (induction ks arbitrary: s)
  case Nil
  then show ?case by simp
next
  case (Cons k ks)
  obtain v d where k: "k = (v, d)" by (cases k)
  let ?s1 = "s\<lparr>searchTerm := v, debounce_deadline := Some (clock s + DEBOUNCE_MS), clock := clock s + d\<rparr>"
  have step: "app_step (app_step s (Type v)) (Tick d) = ?s1"
    using Cons.prems k by (intro type_then_quiet_tick) auto
  show ?case
  proof (cases ks)
    case Nil
    with step k show ?thesis by auto
  next
    case (Cons k' ks')
    have "\<exists>c. app_run ?s1 (burst ks) =
        ?s1\<lparr>searchTerm := fst (last ks), debounce_deadline := Some (c + DEBOUNCE_MS), clock := c + snd (last ks)\<rparr>"
      using Cons.prems k Cons by (intro Cons.IH) auto
    with step k Cons show ?thesis by auto
  qed
qed

lemma requests_run_fetchMovies:
  "length (requests (run_fetchMovies q s)) \<le> Suc (length (requests s))"
  by (cases "search_endpoint q") (simp_all add: run_fetchMovies_Inl run_fetchMovies_Inr)

lemma requests_debounce_fire: "length (requests (debounce_fire s)) \<le> Suc (length (requests s))"
proof (cases "searchTerm s = debouncedSearchTerm s")
  case True
  then show ?thesis by (simp add: debounce_fire_def)
next
  case False
  let ?g = "s\<lparr>debounce_deadline := None, debouncedSearchTerm := searchTerm s\<rparr>"
  have "length (requests (run_fetchMovies (searchTerm s) ?g)) \<le> Suc (length (requests ?g))"
    by (rule requests_run_fetchMovies)
  with False show ?thesis by (simp add: debounce_fire_def Let_def)
qed

lemma search_requests_run_fetchMovies:
  "kind_requests SearchRequest (run_fetchMovies q s) = kind_requests SearchRequest s @ search_fetch_of s q"
  by (cases "search_endpoint q")
     (simp_all add: run_fetchMovies_Inl run_fetchMovies_Inr kind_requests_def search_fetch_of_def)

lemma search_requests_run_loadTrendingMovies:
  "kind_requests SearchRequest (run_loadTrendingMovies s) = kind_requests SearchRequest s"
  by (simp add: run_loadTrendingMovies_eq kind_requests_def)

lemma app_resolve_frame:
  "requests (app_resolve i r s) = requests s \<and> debouncedSearchTerm (app_resolve i r s) = debouncedSearchTerm s"
proof (cases "map_of (inflight s) i")
  case None
  then show ?thesis by (simp add: app_resolve_none)
next
  case (Some k)
  then show ?thesis by (cases k) (simp_all add: app_resolve_search app_resolve_trending)
qed

end
