(* ===== verification/View.thy ===== *)
theory View
  imports App
begin

text \<open>
  The JSX of \<open>App\<close> (lines 80--140) as functions from the two streams to what each
  section shows, and from the application state to the page.  Both sections test, in this order, the loading flag (spinner), a
  truthy error message (the message), and then the list.  The trending section shows
  the empty-state text for a list of length 0 and otherwise its first five movies, each
  with its rank, its \<open>id\<close> as key, its poster (the TMDB image URL when
  \<open>poster_path\<close> is truthy, the placeholder \<open>No-Poster.png\<close> otherwise) and its
  \<open>title\<close> as alt text.  The All Movies section has no empty-state text: it passes
  every movie to \<open>MovieCard\<close> (not modelled) with its \<open>id\<close> as key.  Rendering
  throws when a movie is \<open>null\<close> (property read) or when the stored value has no
  \<open>.map\<close> (a truthy non-array \<open>results\<close> field).
\<close>

subsection \<open>Values rendered as text\<close>

fun decimal_of_nat :: "nat \<Rightarrow> string" where
  "decimal_of_nat n = (if n < 10 then [char_of (48 + n)] else decimal_of_nat (n div 10) @ [char_of (48 + n mod 10)])"

definition decimal_of_int :: "int \<Rightarrow> string" where
  "decimal_of_int i = (if i < 0 then CHR ''-'' # decimal_of_nat (nat (- i)) else decimal_of_nat (nat i))"

text \<open>\<open>Array.prototype.join(sep)\<close> on the elements' strings.\<close>

fun join_with :: "string \<Rightarrow> string list \<Rightarrow> string" where
  "join_with sep [] = []"
| "join_with sep [x] = x"
| "join_with sep (x # xs) = x @ sep @ join_with sep xs"

text \<open>\<open>String(v)\<close>, as a template literal renders a JSON value.\<close>

fun js_to_string :: "json \<Rightarrow> string" where
  "js_to_string JNull = ''null''"
| "js_to_string (JBool b) = (if b then ''true'' else ''false'')"
| "js_to_string (JNum n) = decimal_of_int n"
| "js_to_string (JStr s) = s"
| "js_to_string (JArr xs) = join_with '','' (map (\<lambda>x. if x = JNull then [] else js_to_string x) xs)"
| "js_to_string (JObj kvs) = ''[object Object]''"

subsection \<open>The sections\<close>

datatype 'a section_view =
    Spinner
  | ErrorText string
  | EmptyText string
  | Items "'a list"

record trending_card =
  rank :: nat
  card_key :: "json option"
  poster_src :: string
  poster_alt :: "json option"

definition POSTER_BASE :: string where
  "POSTER_BASE = ''https://image.tmdb.org/t/p/w200''"

definition NO_POSTER :: string where
  "NO_POSTER = ''No-Poster.png''"

definition NO_TRENDING :: string where
  "NO_TRENDING = ''No trending movies found.''"

text \<open>\<open>movie.poster_path ? `...w200${movie.poster_path}` : "No-Poster.png"\<close> (lines 107--111).\<close>

definition poster_src_of :: "json option \<Rightarrow> string" where
  "poster_src_of p =
     (case p of Some v \<Rightarrow> if js_truthy v then POSTER_BASE @ js_to_string v else NO_POSTER | None \<Rightarrow> NO_POSTER)"

text \<open>One \<open><li>\<close> of the trending list (lines 103--114); \<open>index + 1\<close> is the rank.\<close>

definition trending_card_of :: "nat \<Rightarrow> json \<Rightarrow> js_error + trending_card" where
  "trending_card_of idx movie =
     sum_bind (get_prop movie ''id'') (\<lambda>key.
     sum_bind (get_prop movie ''poster_path'') (\<lambda>pp.
     sum_bind (get_prop movie ''title'') (\<lambda>title.
       Inr \<lparr>rank = Suc idx, card_key = key, poster_src = poster_src_of pp, poster_alt = title\<rparr>)))"

text \<open>\<open>array.map((x, index) => ...)\<close> whose callback may throw: the first exception wins.\<close>

fun map_result :: "(nat \<Rightarrow> 'a \<Rightarrow> js_error + 'b) \<Rightarrow> nat \<Rightarrow> 'a list \<Rightarrow> js_error + 'b list" where
  "map_result f i [] = Inr []"
| "map_result f i (x # xs) = sum_bind (f i x) (\<lambda>y. sum_bind (map_result f (Suc i) xs) (\<lambda>ys. Inr (y # ys)))"

text \<open>The message a section shows: a truthy \<open>errorMessage\<close>.\<close>

definition error_shown :: "string option \<Rightarrow> string option" where
  "error_shown m = (case m of Some s \<Rightarrow> if s \<noteq> [] then Some s else None | None \<Rightarrow> None)"

subsection \<open>The comparison \<open>x > 0\<close>\<close>

text \<open>
  ECMA-262 \<open>IsLessThan(0, x)\<close> for a JSON value \<open>x\<close>: \<open>ToPrimitive(x, number)\<close>
  gives the value itself for \<open>null\<close>, booleans, numbers and strings, and
  \<open>ToString(x)\<close> for arrays and objects; a string is then read by
  \<open>StringToNumber\<close>.  What is computed here is whether that number is positive: an
  unparsable string is \<open>NaN\<close> and compares false, and a decimal literal whose exact value
  is at most \<open>2^-1075\<close> rounds to zero.  String characters are taken as code units of
  the Latin-1 range, whose white space is TAB, LF, VT, FF, CR, space and NBSP.
\<close>

definition js_space :: "char \<Rightarrow> bool" where
  "js_space c \<longleftrightarrow> of_char c \<in> {9, 10, 11, 12, 13, 32, 160 :: nat}"

definition digit_in :: "nat \<Rightarrow> char \<Rightarrow> bool" where
  "digit_in b c \<longleftrightarrow>
     (let n = of_char c :: nat in
      (48 \<le> n \<and> n < 48 + min b 10) \<or>
      (b = 16 \<and> ((65 \<le> n \<and> n \<le> 70) \<or> (97 \<le> n \<and> n \<le> 102))))"

definition digits_value :: "string \<Rightarrow> int" where
  "digits_value ds = foldl (\<lambda>a c. 10 * a + (of_char c - 48)) 0 ds"

text \<open>\<open>StrUnsignedDecimalLiteral\<close> with an optional exponent: \<open>None\<close> when the text is not one.\<close>

definition decimal_positive :: "string \<Rightarrow> bool option" where
  "decimal_positive t =
     (if t = ''Infinity'' then Some True
      else
        let d1 = takeWhile (digit_in 10) t; r1 = dropWhile (digit_in 10) t;
            (d2, r2) = (case r1 of
                          c # r \<Rightarrow> if c = CHR ''.'' then (takeWhile (digit_in 10) r, dropWhile (digit_in 10) r)
                                   else ([], r1)
                        | [] \<Rightarrow> ([], []));
            ex = (case r2 of
                    [] \<Rightarrow> Some 0
                  | c # r \<Rightarrow>
                      if c \<noteq> CHR ''e'' \<and> c \<noteq> CHR ''E'' then None
                      else
                        let (sg, ds) = (case r of
                                          d # r' \<Rightarrow> if d = CHR ''-'' then (-1, r') else if d = CHR ''+'' then (1, r') else (1, r)
                                        | [] \<Rightarrow> (1, []))
                        in if ds \<noteq> [] \<and> list_all (digit_in 10) ds then Some (sg * digits_value ds) else None)
        in if (d1 = [] \<and> d2 = []) then None
           else case ex of
                  None \<Rightarrow> None
                | Some e \<Rightarrow>
                    let m = digits_value (d1 @ d2); k = e - int (length d2) in
                    Some (0 < m \<and> (0 \<le> k \<or> m * 2 ^ 1075 > 10 ^ nat (- k))))"

text \<open>\<open>NonDecimalIntegerLiteral\<close>: \<open>0x\<close>, \<open>0o\<close>, \<open>0b\<close> and their digits.\<close>

definition radix_positive :: "string \<Rightarrow> bool option" where
  "radix_positive t =
     (case t of
        z # p # ds \<Rightarrow>
          (let b = (if p \<in> {CHR ''x'', CHR ''X''} then 16 else if p \<in> {CHR ''o'', CHR ''O''} then 8
                    else if p \<in> {CHR ''b'', CHR ''B''} then 2 else 0) in
           if z = CHR ''0'' \<and> b \<noteq> 0 \<and> ds \<noteq> [] \<and> list_all (digit_in b) ds
           then Some (\<exists>c\<in>set ds. c \<noteq> CHR ''0'') else None)
      | _ \<Rightarrow> None)"

text \<open>\<open>StringToNumber(s) > 0\<close>.\<close>

definition string_number_positive :: "string \<Rightarrow> bool" where
  "string_number_positive s =
     (let t = rev (dropWhile js_space (rev (dropWhile js_space s))) in
      if t = [] then False
      else case radix_positive t of
             Some b \<Rightarrow> b
           | None \<Rightarrow>
               (case t of
                  c # r \<Rightarrow>
                    if c = CHR ''-'' then False
                    else if c = CHR ''+'' then (decimal_positive r = Some True)
                    else (decimal_positive t = Some True)
                | [] \<Rightarrow> False))"

definition js_positive :: "json \<Rightarrow> bool" where
  "js_positive v =
     (case v of
        JNull \<Rightarrow> False
      | JBool b \<Rightarrow> b
      | JNum n \<Rightarrow> 0 < n
      | JStr s \<Rightarrow> string_number_positive s
      | _ \<Rightarrow> string_number_positive (js_to_string v))"

subsection \<open>Rendering the sections\<close>

text \<open>
  \<open>trendingMovies.length > 0\<close> (line 101): arrays and strings have a length; an
  object's \<open>length\<close> is its property of that name, compared by \<open>js_positive\<close>;
  other values give \<open>undefined\<close>, and \<open>undefined > 0\<close> is false; \<open>null.length\<close>
  throws.
\<close>

definition length_positive :: "json \<Rightarrow> js_error + bool" where
  "length_positive v =
     (case v of
        JNull \<Rightarrow> Inl NullPropertyError
      | JArr xs \<Rightarrow> Inr (xs \<noteq> [])
      | JStr s \<Rightarrow> Inr (s \<noteq> [])
      | JObj kvs \<Rightarrow> Inr (case map_of (rev kvs) ''length'' of Some l \<Rightarrow> js_positive l | None \<Rightarrow> False)
      | _ \<Rightarrow> Inr False)"

text \<open>The trending section (lines 97--119).\<close>

definition render_trending :: "stream \<Rightarrow> js_error + trending_card section_view" where
  "render_trending st =
     (if loading st then Inr Spinner
      else case error_shown (err st) of
             Some m \<Rightarrow> Inr (ErrorText m)
           | None \<Rightarrow>
               sum_bind (length_positive (items st)) (\<lambda>pos.
                 if \<not> pos then Inr (EmptyText NO_TRENDING)
                 else case items st of
                        JArr xs \<Rightarrow> map_sum id Items (map_result trending_card_of 0 (take 5 xs))
                      | _ \<Rightarrow> Inl NotAFunction))"

text \<open>One \<open>MovieCard\<close> of the All Movies list (line 133): its key and the movie passed on.\<close>

definition movie_card_of :: "nat \<Rightarrow> json \<Rightarrow> js_error + json option \<times> json" where
  "movie_card_of idx movie = map_sum id (\<lambda>key. (key, movie)) (get_prop movie ''id'')"

text \<open>The All Movies section (lines 126--136): there is no empty-state text.\<close>

definition render_all_movies :: "stream \<Rightarrow> js_error + (json option \<times> json) section_view" where
  "render_all_movies st =
     (if loading st then Inr Spinner
      else case error_shown (err st) of
             Some m \<Rightarrow> Inr (ErrorText m)
           | None \<Rightarrow>
               (case items st of
                  JArr xs \<Rightarrow> map_sum id Items (map_result movie_card_of 0 xs)
                | JNull \<Rightarrow> Inl NullPropertyError
                | _ \<Rightarrow> Inl NotAFunction))"

text \<open>
  The whole page (lines 80--140): the header with the \<open>Search\<close> box, whose value is
  \<open>searchTerm\<close> (line 90), then the trending section, then the All Movies section.
  The JSX is evaluated in that order, so the first section that throws decides the
  exception.  The static markup (hero image, headings) is left out.
\<close>

record page =
  search_value :: js_string
  trending_section :: "trending_card section_view"
  all_movies_section :: "(json option \<times> json) section_view"

definition render_page :: "app_state \<Rightarrow> js_error + page" where
  "render_page s =
     sum_bind (render_trending (trending s)) (\<lambda>t.
     sum_bind (render_all_movies (movies s)) (\<lambda>a.
       Inr \<lparr>search_value = searchTerm s, trending_section = t, all_movies_section = a\<rparr>))"

subsection \<open>Lemmas\<close>

lemma map_result_trending_cards:
  "map_result trending_card_of i xs = Inr cs \<Longrightarrow>
   length cs = length xs \<and> map rank cs = map (\<lambda>k. Suc (i + k)) [0..<length xs]"
proof (induction xs arbitrary: i cs)
  case Nil
  then show ?case by simp
next
  case (Cons x xs)
  then obtain c cs' where c: "trending_card_of i x = Inr c" and r: "map_result trending_card_of (Suc i) xs = Inr cs'"
    and cs: "cs = c # cs'"
    by (auto simp: sum_bind_def split: sum.splits)
  have "rank c = Suc i" using c
    by (auto simp: trending_card_of_def sum_bind_def split: sum.splits)
  with Cons.IH[OF r] cs show ?case by (simp del: upt_Suc add: map_upt_Suc)
qed

lemma map_result_total:
  "(\<And>j x. x \<in> set xs \<Longrightarrow> \<exists>y. f j x = Inr y) \<Longrightarrow> \<exists>ys. map_result f i xs = Inr ys"
proof (induction xs arbitrary: i)
  case Nil
  then show ?case by simp
next
  case (Cons x xs)
  then obtain y where "f i x = Inr y" by fastforce
  moreover obtain ys where "map_result f (Suc i) xs = Inr ys" using Cons by fastforce
  ultimately show ?case by simp
qed

lemma get_prop_not_null: "v \<noteq> JNull \<Longrightarrow> \<exists>r. get_prop v k = Inr r"
  by (cases v) auto

lemma card_total: "x \<noteq> JNull \<Longrightarrow> \<exists>c. trending_card_of j x = Inr c"
proof -
  assume "x \<noteq> JNull"
  then obtain a b c where "get_prop x ''id'' = Inr a" "get_prop x ''poster_path'' = Inr b"
    "get_prop x ''title'' = Inr c"
    using get_prop_not_null by meson
  then show ?thesis by (simp add: trending_card_of_def)
qed

lemma movie_card_total: "x \<noteq> JNull \<Longrightarrow> \<exists>c. movie_card_of j x = Inr c"
  using get_prop_not_null[of x] by (auto simp: movie_card_of_def)

text \<open>
  C27. The poster falls back to \<open>No-Poster.png\<close> exactly when the movie has no
  \<open>poster_path\<close> or a falsy one; the data keeps the field as it came.
\<close>

theorem poster_placeholder_iff:
  "poster_src_of p = NO_POSTER \<longleftrightarrow> (case p of None \<Rightarrow> True | Some v \<Rightarrow> \<not> js_truthy v)"
proof -
  have "POSTER_BASE @ x \<noteq> NO_POSTER" for x
  proof
    assume "POSTER_BASE @ x = NO_POSTER"
    then have "length (POSTER_BASE @ x) = length NO_POSTER" by simp
    then show False by (simp add: POSTER_BASE_def NO_POSTER_def)
  qed
  then show ?thesis by (auto simp: poster_src_of_def split: option.split)
qed

text \<open>
  C26. The trending section shows at most five movies, numbered 1, 2, ... in list order,
  and shows a list only when there is at least one movie.
\<close>

theorem trending_top_five:
  assumes "render_trending st = Inr (Items cs)"
  shows "cs \<noteq> [] \<and> length cs \<le> 5 \<and> map rank cs = map Suc [0..<length cs]"
proof -
  obtain xs where xs: "items st = JArr xs" "xs \<noteq> []" "\<not> loading st" "error_shown (err st) = None"
    and m: "map_result trending_card_of 0 (take 5 xs) = Inr cs"
    using assms
    by (auto simp: render_trending_def length_positive_def sum_bind_def
             split: if_splits option.splits json.splits sum.splits)
  from map_result_trending_cards[OF m] xs(2) show ?thesis
    by (cases cs) (auto simp: min_def split: if_splits)
qed

theorem trending_top_five_witness:
  "render_trending \<lparr>items = JArr (replicate 7 (JObj [])), err = Some [], loading = False\<rparr> =
     Inr (Items (map (\<lambda>i. \<lparr>rank = i, card_key = None, poster_src = NO_POSTER, poster_alt = None\<rparr>) [1..<6])) \<and>
   length (map (\<lambda>i. \<lparr>rank = i, card_key = None, poster_src = NO_POSTER, poster_alt = None\<rparr>) [1..<6::nat]) \<le> 5"
proof -
  have r: "render_trending \<lparr>items = JArr (replicate 7 (JObj [])), err = Some [], loading = False\<rparr> =
     Inr (Items (map (\<lambda>i. \<lparr>rank = i, card_key = None, poster_src = NO_POSTER, poster_alt = None\<rparr>) [1..<6]))"
    by code_simp
  show ?thesis using trending_top_five[OF r] r by simp
qed

text \<open>
  C20. Both sections display the spec's FetchState: the spinner exactly in Loading, and
  the error text exactly in Failure with that message.
\<close>

theorem view_shows_fetch_state:
  "(render_all_movies st = Inr Spinner \<longleftrightarrow> stream_abs st = Loading) \<and>
   (render_all_movies st = Inr (ErrorText m) \<longleftrightarrow> stream_abs st = Failure m) \<and>
   (render_trending st = Inr Spinner \<longleftrightarrow> stream_abs st = Loading) \<and>
   (render_trending st = Inr (ErrorText m) \<longleftrightarrow> stream_abs st = Failure m)"
  by (auto simp: render_all_movies_def render_trending_def stream_abs_def error_shown_def
      length_positive_def sum_bind_def
      split: if_splits option.splits json.splits sum.splits)

text \<open>
  C28. Rendering cannot throw for an array of non-null movies, whatever fields they have.
\<close>

theorem render_total_without_nulls:
  assumes "items st = JArr xs" and "JNull \<notin> set xs"
  shows "(\<exists>v. render_all_movies st = Inr v) \<and> (\<exists>v. render_trending st = Inr v)"
proof -
  have a: "\<exists>ys. map_result movie_card_of 0 xs = Inr ys"
    using assms(2) by (intro map_result_total movie_card_total) auto
  have b: "\<exists>ys. map_result trending_card_of 0 (take n xs) = Inr ys" for n
    using assms(2) by (intro map_result_total card_total) (auto dest: in_set_takeD)
  show ?thesis using a b assms(1)
    by (auto simp: render_all_movies_def render_trending_def length_positive_def split: option.split)
qed

theorem render_total_without_nulls_witness:
  "JNull \<notin> set [JObj [], JNum 3] \<and>
   (\<exists>v. render_all_movies \<lparr>items = JArr [JObj [], JNum 3], err = None, loading = False\<rparr> = Inr v)"
  using render_total_without_nulls[of "\<lparr>items = JArr [JObj [], JNum 3], err = None, loading = False\<rparr>"] by simp

text \<open>
  C29. With nothing loading, no error and an empty list, the trending section shows its
  empty-state text but the All Movies section shows an empty list: it has no empty state.
\<close>

theorem all_movies_no_empty_state:
  assumes "\<not> loading st" and "error_shown (err st) = None" and "items st = JArr []"
  shows "render_all_movies st = Inr (Items []) \<and> render_trending st = Inr (EmptyText NO_TRENDING)"
  using assms by (simp add: render_all_movies_def render_trending_def length_positive_def)

theorem all_movies_no_empty_state_witness:
  "render_all_movies \<lparr>items = JArr [], err = Some [], loading = False\<rparr> = Inr (Items [])"
proof -
  have "error_shown (err \<lparr>items = JArr [], err = Some [], loading = False\<rparr>) = None"
    by (simp add: error_shown_def)
  then show ?thesis using all_movies_no_empty_state[of "\<lparr>items = JArr [], err = Some [], loading = False\<rparr>"] by simp
qed

end
