(* ===== verification/Typing.thy ===== *)
theory Typing
  imports View
begin

text \<open>
  Well-typed responses keep the state well-typed, and a well-typed state renders.
  Spec section 6 fixes the shape of a successful catalog response: a JSON object whose
  \<open>results\<close> field is an array of movie objects.  \<open>conforming\<close> says that a
  settled request is either a failure (network, HTTP status, unparsable body), which
  the code turns into an error message, or a success with a body of that shape.  The
  typing of a state (\<open>typed_state\<close>) is that both stored lists are arrays of objects.
  Preservation: every event whose outcome conforms keeps the typing; progress: the
  page of a typed state renders without throwing.  Together, no run of the
  application whose responses conform to the spec ever throws while rendering; the
  claim of theory \<open>Spec2Isabelle\<close> on a non-conforming \<open>results\<close> shows that the
  hypothesis is needed.
\<close>

subsection \<open>The response shape of spec section 6\<close>

fun is_object :: "json \<Rightarrow> bool" where
  "is_object (JObj kvs) = True"
| "is_object _ = False"

fun movie_array :: "json \<Rightarrow> bool" where
  "movie_array (JArr xs) = list_all is_object xs"
| "movie_array _ = False"

definition conforming_body :: "json \<Rightarrow> bool" where
  "conforming_body d =
     (case d of
        JObj kvs \<Rightarrow> (case map_of (rev kvs) ''results'' of Some v \<Rightarrow> movie_array v | None \<Rightarrow> False)
      | _ \<Rightarrow> False)"

fun conforming :: "fetch_outcome \<Rightarrow> bool" where
  "conforming Rejected = True"
| "conforming (Response status None) = True"
| "conforming (Response status (Some d)) = (\<not> response_ok status \<or> conforming_body d)"

fun conforming_event :: "event \<Rightarrow> bool" where
  "conforming_event (Resolve i r) = conforming r"
| "conforming_event _ = True"

definition typed_state :: "app_state \<Rightarrow> bool" where
  "typed_state s \<longleftrightarrow> movie_array (items (movies s)) \<and> movie_array (items (trending s))"

subsection \<open>Preservation\<close>

lemma typed_initial: "typed_state (initial_app key)"
  by (simp add: typed_state_def initial_app_def initial_stream_def)

lemma conforming_results:
  "conforming r \<Longrightarrow> awaited_results r = Inr v \<Longrightarrow> movie_array v"
  by (auto simp: awaited_results_Inr_iff conforming_body_def results_of_def or_empty_def
      split: json.splits option.splits)

lemma items_fetch_settle:
  "items (fst (fetch_settle label msg res st)) = (case res of Inl e \<Rightarrow> items st | Inr v \<Rightarrow> v)"
  by (simp add: fetch_settle_def fetch_catch_def split: sum.split)

lemma items_fetch_begin [simp]:
  "items (movies (run_fetchMovies q s)) = items (movies s)"
  "items (trending (run_loadTrendingMovies s)) = items (trending s)"
  "movies (run_loadTrendingMovies s) = movies s"
  by (cases "search_endpoint q")
     (simp_all add: run_fetchMovies_Inl run_fetchMovies_Inr run_loadTrendingMovies_eq
       fetch_start_def fetch_catch_def)

lemma typed_mount: "typed_state s \<Longrightarrow> typed_state (app_mount s)"
  by (simp add: typed_state_def app_mount_def)

lemma typed_type: "typed_state s \<Longrightarrow> typed_state (app_type v s)"
  by (simp add: typed_state_def app_type_def)

lemma typed_fire: "typed_state s \<Longrightarrow> typed_state (debounce_fire s)"
  by (simp add: typed_state_def debounce_fire_def Let_def)

lemma typed_tick: "typed_state s \<Longrightarrow> typed_state (app_tick d s)"
proof -
  assume t: "typed_state s"
  then have "typed_state (s\<lparr>clock := clock s + d\<rparr>)" by (simp add: typed_state_def)
  then show ?thesis using typed_fire by (simp add: app_tick_def Let_def split: option.split)
qed

lemma typed_resolve:
  assumes "typed_state s" and "conforming r"
  shows "typed_state (app_resolve i r s)"
proof (cases "map_of (inflight s) i")
  case None
  with assms show ?thesis by (simp add: app_resolve_none)
next
  case (Some k)
  with assms show ?thesis
    by (cases k) (auto simp: typed_state_def app_resolve_search app_resolve_trending
        fetchMovies_end_def loadTrendingMovies_end_def items_fetch_settle conforming_results
        split: sum.split)
qed

lemma typed_step: "typed_state s \<Longrightarrow> conforming_event e \<Longrightarrow> typed_state (app_step s e)"
  by (cases e) (simp_all add: typed_mount typed_type typed_tick typed_resolve)

lemma typed_run: "typed_state s \<Longrightarrow> list_all conforming_event es \<Longrightarrow> typed_state (app_run s es)"
  by (induction es arbitrary: s) (simp_all add: typed_step)

subsection \<open>Progress\<close>

lemma movie_array_no_null: "movie_array v \<Longrightarrow> \<exists>xs. v = JArr xs \<and> JNull \<notin> set xs"
  by (cases v) (auto simp: list_all_iff)

lemma render_page_typed: "typed_state s \<Longrightarrow> \<exists>p. render_page s = Inr p"
proof -
  assume "typed_state s"
  then obtain xs ys where m: "items (movies s) = JArr xs" "JNull \<notin> set xs"
    and t: "items (trending s) = JArr ys" "JNull \<notin> set ys"
    using movie_array_no_null by (meson typed_state_def)
  have "\<exists>a. map_result movie_card_of 0 xs = Inr a"
    using m(2) by (intro map_result_total movie_card_total) auto
  moreover have "\<exists>b. map_result trending_card_of 0 (take 5 ys) = Inr b"
    using t(2) by (intro map_result_total card_total) (auto dest: in_set_takeD)
  ultimately show ?thesis using m(1) t(1)
    by (auto simp: render_page_def render_all_movies_def render_trending_def length_positive_def
        split: option.split)
qed

text \<open>
  C14. Type preservation: in every run of the application in which each settled request
  conforms to the response shape of spec section 6, both stored lists stay arrays of
  movie objects.
\<close>

theorem conforming_runs_typed:
  "list_all conforming_event es \<Longrightarrow> typed_state (app_run (initial_app key) es)"
  using typed_initial by (rule typed_run)

theorem conforming_runs_typed_witness:
  "list_all conforming_event
     [Mount, Resolve 1 (Response 200 (Some (JObj [(''results'', JArr [JObj [(''id'', JNum 7)]])]))),
      Resolve 0 (Response 404 None)] \<and>
   typed_state (app_run (initial_app None)
     [Mount, Resolve 1 (Response 200 (Some (JObj [(''results'', JArr [JObj [(''id'', JNum 7)]])]))),
      Resolve 0 (Response 404 None)])"
proof -
  have c: "list_all conforming_event
     [Mount, Resolve 1 (Response 200 (Some (JObj [(''results'', JArr [JObj [(''id'', JNum 7)]])]))),
      Resolve 0 (Response 404 None)]"
    by (simp add: conforming_body_def response_ok_def)
  from c conforming_runs_typed[OF c] show ?thesis by (rule conjI)
qed

text \<open>
  C13. No render error: in every run whose responses conform to spec section 6, the page
  renders without throwing, whatever the order in which requests settle and whatever
  fails.
\<close>

theorem conforming_runs_render:
  "list_all conforming_event es \<Longrightarrow> \<exists>p. render_page (app_run (initial_app key) es) = Inr p"
  using typed_initial typed_run render_page_typed by blast

theorem conforming_runs_render_witness:
  "list_all conforming_event
     [Mount, Resolve 1 (Response 200 (Some (JObj [(''results'', JArr [JObj [(''id'', JNum 7)]])]))),
      Resolve 0 (Response 404 None)] \<and>
   (\<exists>p. render_page (app_run (initial_app None)
     [Mount, Resolve 1 (Response 200 (Some (JObj [(''results'', JArr [JObj [(''id'', JNum 7)]])]))),
      Resolve 0 (Response 404 None)]) = Inr p)"
proof -
  have c: "list_all conforming_event
     [Mount, Resolve 1 (Response 200 (Some (JObj [(''results'', JArr [JObj [(''id'', JNum 7)]])]))),
      Resolve 0 (Response 404 None)]"
    by (simp add: conforming_body_def response_ok_def)
  from c conforming_runs_render[OF c] show ?thesis by (rule conjI)
qed

end
