(* ===== verification/Liveness.thy ===== *)
theory Liveness
  imports App
begin

text \<open>
  Progress of the application model (theory \<open>App\<close>) when the environment does its
  part.  Two things the user waits for are bounded:
  \<^item> the stable query: once the user stops typing, one tick of
    \<open>DEBOUNCE_MS\<close> = 700 ms makes \<open>debouncedSearchTerm\<close> equal to
    \<open>searchTerm\<close> and leaves no timer pending (spec 4.2 and section 8, property 1);
    this rests on the invariant \<open>debounce_inv\<close>: a pending deadline is at most
    700 ms away, and with no deadline pending the two terms agree;
  \<^item> the spinners: once the network has answered every pending request, with any
    outcomes and in the order they were issued, no request is pending and neither
    section is loading (spec 4.3/7: loading is cleared on every exit path); this rests
    on the invariant \<open>app_inv\<close> of theory \<open>App\<close>.
  The environment's answering is also a loop, \<open>settle_all\<close>: it hands the head of
  the pending list its outcome until nothing is pending.  Its recursion is not
  structural; it terminates from every state, by induction on the length of the list.
\<close>

subsection \<open>Invariant of the debounce timer\<close>

definition debounce_inv :: "app_state \<Rightarrow> bool" where
  "debounce_inv s \<longleftrightarrow>
     (case debounce_deadline s of
        Some t \<Rightarrow> t \<le> clock s + DEBOUNCE_MS
      | None \<Rightarrow> mounted s \<longrightarrow> debouncedSearchTerm s = searchTerm s)"

text \<open>The network answering each pending request, in issue order, with outcomes \<open>answer\<close>.\<close>

definition answer_all :: "(nat \<Rightarrow> fetch_outcome) \<Rightarrow> app_state \<Rightarrow> event list" where
  "answer_all answer s = map (\<lambda>p. Resolve (fst p) (answer (fst p))) (inflight s)"

text \<open>
  The same as a loop: while a request is pending, hand the outcome of the oldest one to
  its continuation.  Each round removes one request, which the termination proof
  measures by the number of pending requests.
\<close>

function (domintros) settle_all :: "(nat \<Rightarrow> fetch_outcome) \<Rightarrow> app_state \<Rightarrow> app_state" where
  "settle_all answer s =
     (case inflight s of
        [] \<Rightarrow> s
      | p # ps \<Rightarrow> settle_all answer (app_resolve (fst p) (answer (fst p)) s))"
  by pat_completeness auto

subsection \<open>Frame lemmas\<close>

lemma run_fetchMovies_frame [simp]:
  "searchTerm (run_fetchMovies q s) = searchTerm s"
  "debouncedSearchTerm (run_fetchMovies q s) = debouncedSearchTerm s"
  "clock (run_fetchMovies q s) = clock s"
  "debounce_deadline (run_fetchMovies q s) = debounce_deadline s"
  "mounted (run_fetchMovies q s) = mounted s"
  by (simp_all add: run_fetchMovies_def split: prod.split)

lemma run_loadTrendingMovies_frame [simp]:
  "searchTerm (run_loadTrendingMovies s) = searchTerm s"
  "debouncedSearchTerm (run_loadTrendingMovies s) = debouncedSearchTerm s"
  "clock (run_loadTrendingMovies s) = clock s"
  "debounce_deadline (run_loadTrendingMovies s) = debounce_deadline s"
  "mounted (run_loadTrendingMovies s) = mounted s"
  by (simp_all add: run_loadTrendingMovies_def split: prod.split)

lemma app_resolve_timer_frame:
  "searchTerm (app_resolve i r s) = searchTerm s \<and>
   debouncedSearchTerm (app_resolve i r s) = debouncedSearchTerm s \<and>
   clock (app_resolve i r s) = clock s \<and> debounce_deadline (app_resolve i r s) = debounce_deadline s \<and>
   mounted (app_resolve i r s) = mounted s"
proof (cases "map_of (inflight s) i")
  case None
  then show ?thesis by (simp add: app_resolve_none)
next
  case (Some k)
  then show ?thesis by (cases k) (simp_all add: app_resolve_search app_resolve_trending)
qed

lemma inflight_app_resolve:
  "map_of (inflight s) i = Some k \<Longrightarrow> inflight (app_resolve i r s) = remove1 (i, k) (inflight s)"
  by (cases k) (simp_all add: app_resolve_search app_resolve_trending)

lemma debounce_fire_synced:
  "debouncedSearchTerm (debounce_fire s) = searchTerm (debounce_fire s) \<and>
   debounce_deadline (debounce_fire s) = None \<and> clock (debounce_fire s) = clock s \<and>
   mounted (debounce_fire s) = mounted s"
  by (simp add: debounce_fire_def Let_def)

subsection \<open>The timer invariant holds in every reachable state\<close>

lemma debounce_inv_step: "debounce_inv s \<Longrightarrow> debounce_inv (app_step s e)"
proof (cases e)
  case Mount
  assume "debounce_inv s"
  with Mount show ?thesis by (simp add: debounce_inv_def app_mount_def)
next
  case (Type v)
  assume "debounce_inv s"
  with Type show ?thesis by (simp add: debounce_inv_def app_type_def)
next
  case (Tick d)
  assume inv: "debounce_inv s"
  show ?thesis
  proof (cases "debounce_deadline s")
    case None
    with inv Tick show ?thesis by (simp add: debounce_inv_def app_tick_def)
  next
    case (Some t)
    with inv Tick debounce_fire_synced[of "s\<lparr>clock := clock s + d\<rparr>"] show ?thesis
      by (auto simp: debounce_inv_def app_tick_def Let_def)
  qed
next
  case (Resolve i r)
  assume "debounce_inv s"
  with Resolve app_resolve_timer_frame[of i r s] show ?thesis
    by (simp add: debounce_inv_def split: option.splits)
qed

lemma reachable_debounce_inv: "reachable s \<Longrightarrow> debounce_inv s"
proof (induction rule: reachable.induct)
  case (init key)
  show ?case by (simp add: debounce_inv_def initial_app_def)
next
  case (step s e)
  from step.IH show ?case by (rule debounce_inv_step)
qed

subsection \<open>Answering every pending request\<close>

lemma run_answers_inflight:
  "inflight s = ps \<Longrightarrow> inflight (app_run s (map (\<lambda>p. Resolve (fst p) (answer (fst p))) ps)) = []"
proof (induction ps arbitrary: s)
  case Nil
  then show ?case by simp
next
  case (Cons p ps)
  then have "map_of (inflight s) (fst p) = Some (snd p)" by simp
  then have "inflight (app_resolve (fst p) (answer (fst p)) s) = ps"
    using Cons.prems by (simp add: inflight_app_resolve)
  then show ?case using Cons.IH by simp
qed

text \<open>
  C15. Liveness of the stable query: in every reachable state after mounting, once the
  user stops typing, 700 ms later the debounced term equals the typed term and no
  timer is pending, whatever was typed before.
\<close>

theorem debounce_settles:
  "reachable s \<Longrightarrow> mounted s \<Longrightarrow>
   debouncedSearchTerm (app_step s (Tick DEBOUNCE_MS)) = searchTerm (app_step s (Tick DEBOUNCE_MS)) \<and>
   searchTerm (app_step s (Tick DEBOUNCE_MS)) = searchTerm s \<and>
   debounce_deadline (app_step s (Tick DEBOUNCE_MS)) = None"
proof -
  assume r: "reachable s" and m: "mounted s"
  have inv: "debounce_inv s" using r by (rule reachable_debounce_inv)
  show ?thesis
  proof (cases "debounce_deadline s")
    case None
    with inv m show ?thesis by (simp add: debounce_inv_def app_tick_def)
  next
    case (Some t)
    with inv debounce_fire_synced[of "s\<lparr>clock := clock s + DEBOUNCE_MS\<rparr>"] show ?thesis
      by (auto simp: debounce_inv_def app_tick_def Let_def debounce_fire_def)
  qed
qed

theorem debounce_settles_witness:
  "mounted (app_run (initial_app None) [Mount, Type [0x61]]) \<and>
   debouncedSearchTerm (app_step (app_run (initial_app None) [Mount, Type [0x61]]) (Tick DEBOUNCE_MS))
     = searchTerm (app_run (initial_app None) [Mount, Type [0x61]])"
proof -
  have r: "reachable (app_run (initial_app None) [Mount, Type [0x61]])"
    by (rule reachable_run) (rule reachable.init)
  have m: "mounted (app_run (initial_app None) [Mount, Type [0x61]])" by code_simp
  from m debounce_settles[OF r m] show ?thesis by simp
qed

text \<open>
  C12. Liveness of the spinners: from every reachable state, once the network answers
  every pending request (with any outcomes: data, HTTP errors, network failures),
  nothing is pending and neither section shows the spinner.
\<close>

theorem answered_not_loading:
  "reachable s \<Longrightarrow>
   inflight (app_run s (answer_all answer s)) = [] \<and>
   \<not> loading (movies (app_run s (answer_all answer s))) \<and>
   \<not> loading (trending (app_run s (answer_all answer s)))"
proof -
  assume r: "reachable s"
  have e: "inflight (app_run s (answer_all answer s)) = []"
    unfolding answer_all_def by (rule run_answers_inflight) simp
  have "app_inv (app_run s (answer_all answer s))"
    using r by (intro reachable_app_inv reachable_run)
  with e show ?thesis by (simp add: app_inv_def kind_inflight_def)
qed

theorem answered_not_loading_witness:
  "inflight (app_run (app_run (initial_app None) [Mount])
      (answer_all (\<lambda>i. Rejected) (app_run (initial_app None) [Mount]))) = [] \<and>
   \<not> loading (movies (app_run (app_run (initial_app None) [Mount])
      (answer_all (\<lambda>i. Rejected) (app_run (initial_app None) [Mount]))))"
proof -
  have r: "reachable (app_run (initial_app None) [Mount])"
    by (rule reachable_run) (rule reachable.init)
  from answered_not_loading[OF r] show ?thesis by simp
qed

subsection \<open>The settling loop terminates\<close>

lemma inflight_resolve_head:
  "inflight s = p # ps \<Longrightarrow> inflight (app_resolve (fst p) r s) = ps"
  by (cases p) (simp add: inflight_app_resolve)

lemma settle_all_dom_all: "settle_all_dom (answer, s)"
proof (induction "length (inflight s)" arbitrary: s)
  case 0
  show ?case
  proof (rule settle_all.domintros)
    fix a b ps assume "inflight s = (a, b) # ps"
    with "0" show "settle_all_dom (answer, app_resolve a (answer a) s)" by simp
  qed
next
  case (Suc n)
  show ?case
  proof (rule settle_all.domintros)
    fix a b ps assume "inflight s = (a, b) # ps"
    with Suc.hyps(2) show "settle_all_dom (answer, app_resolve a (answer a) s)"
      using inflight_resolve_head[of s "(a, b)" ps] by (intro Suc.hyps(1)) simp
  qed
qed

termination settle_all
  by (simp add: split_paired_All settle_all_dom_all)

declare settle_all.simps [simp del]

text \<open>
  The environment's settling loop (not code of the application: it stands for the
  network answering every pending request) terminates from every state: it runs exactly one continuation per pending request, in issue order,
  and stops with nothing pending.
\<close>

lemma settle_all_terminates:
  "settle_all_dom (answer, s) \<and>
   settle_all answer s = app_run s (answer_all answer s) \<and> inflight (settle_all answer s) = []"
proof -
  have "settle_all answer s = app_run s (answer_all answer s) \<and> inflight (settle_all answer s) = []"
  proof (induction answer s rule: settle_all.induct)
    case (1 answer s)
    show ?case
    proof (cases "inflight s")
      case Nil
      then show ?thesis by (simp add: answer_all_def settle_all.simps [of answer s])
    next
      case (Cons p ps)
      let ?s1 = "app_resolve (fst p) (answer (fst p)) s"
      have a: "answer_all answer s = Resolve (fst p) (answer (fst p)) # answer_all answer ?s1"
        using Cons by (simp add: answer_all_def inflight_resolve_head)
      have u: "settle_all answer s = settle_all answer ?s1"
        using Cons by (simp add: settle_all.simps [of answer s])
      have IH: "settle_all answer ?s1 = app_run ?s1 (answer_all answer ?s1) \<and> inflight (settle_all answer ?s1) = []"
        by (rule "1.IH"[OF Cons])
      have r: "app_run s (answer_all answer s) = app_run ?s1 (answer_all answer ?s1)"
        by (simp add: a)
      show ?thesis unfolding u r by (rule IH)
    qed
  qed
  with settle_all_dom_all show ?thesis by blast
qed

end
