(* ===== verification/Races.thy ===== *)
theory Races
  imports Liveness
begin

text \<open>
  Ordering and interleaving.  Nothing in \<open>App.jsx\<close> tags, cancels or orders the
  requests of \<open>fetchMovies\<close> (spec sections 4.3, 5 and 9), and nothing in it lets a
  response influence which requests are made.  Two general results make this precise:
  \<^item> the search stream after any pending search requests settle, in any order, is
    the last writer's: the list is the results of the last successful one to settle,
    the error message is set as soon as any of them failed and is never cleared by a
    later success, and the spinner is off (spec section 5: "the last one to resolve
    wins, regardless of issue order");
  \<^item> when the responses arrive in the order the requests were issued (the settling loop
    \<open>settle_all\<close> of theory \<open>Liveness\<close>) and all succeed, the list holds the
    results of the last pending search request (the root theory shows that this is the
    request for the current query whenever that one is still pending);
  \<^item> non-interference: the debounce scheduler and the log of issued requests
    (\<open>control_view\<close>) do not depend on when, in what order, or with what outcome
    requests settle; removing every \<open>Resolve\<close> event from a run leaves them unchanged.
\<close>

subsection \<open>Definitions\<close>

fun is_resolve :: "event \<Rightarrow> bool" where
  "is_resolve (Resolve i r) = True"
| "is_resolve _ = False"

text \<open>What the scheduler and the request log consist of.\<close>

definition control_view ::
  "app_state \<Rightarrow> js_string \<times> js_string \<times> time option \<times> time \<times> bool \<times> string option \<times> nat \<times>
                (nat \<times> request_kind \<times> string) list" where
  "control_view s =
     (searchTerm s, debouncedSearchTerm s, debounce_deadline s, clock s, mounted s, api_key s,
      next_id s, requests s)"

text \<open>The list a run of settlements leaves: each success overwrites, a failure keeps it.\<close>

definition last_writer :: "json \<Rightarrow> (js_error + json) list \<Rightarrow> json" where
  "last_writer v rs = foldl (\<lambda>acc r. case r of Inl e \<Rightarrow> acc | Inr x \<Rightarrow> x) v rs"

subsection \<open>Settling search requests in any order\<close>

lemma map_of_remove1_other:
  "j \<noteq> i \<Longrightarrow> map_of (remove1 (i, k) xs) j = map_of xs j"
  by (induction xs) auto

lemma resolve_search_stream:
  assumes "map_of (inflight s) i = Some SearchRequest"
  shows "items (movies (app_resolve i r s)) =
      (case awaited_results r of Inl e \<Rightarrow> items (movies s) | Inr x \<Rightarrow> x)"
    "err (movies (app_resolve i r s)) =
       (if isl (awaited_results r) then Some SEARCH_ERROR else err (movies s))"
    "\<not> loading (movies (app_resolve i r s))"
    "j \<noteq> i \<Longrightarrow> map_of (inflight (app_resolve i r s)) j = map_of (inflight s) j"
  using assms
  by (simp_all add: app_resolve_search fetchMovies_end_def fetch_settle_def
      fetch_catch_def map_of_remove1_other split: sum.split)

lemma last_writer_Cons: "last_writer v (r # rs) = last_writer (case r of Inl e \<Rightarrow> v | Inr x \<Rightarrow> x) rs"
  by (simp add: last_writer_def)

text \<open>
  C23. Last writer wins, in any order: when pending search requests settle one after
  another, in any order and with any outcomes, the list shown is that of the last
  successful one to settle (whatever order they were issued in), the error message is
  set if any of them failed (a later success does not clear it), and the spinner is off.
\<close>

theorem last_resolved_wins:
  assumes "distinct ids" and "\<forall>i\<in>set ids. map_of (inflight s) i = Some SearchRequest"
  shows "items (movies (app_run s (map (\<lambda>i. Resolve i (answer i)) ids)))
           = last_writer (items (movies s)) (map (\<lambda>i. awaited_results (answer i)) ids) \<and>
         err (movies (app_run s (map (\<lambda>i. Resolve i (answer i)) ids)))
           = (if list_ex (\<lambda>i. isl (awaited_results (answer i))) ids then Some SEARCH_ERROR
              else err (movies s)) \<and>
         (ids = [] \<or> \<not> loading (movies (app_run s (map (\<lambda>i. Resolve i (answer i)) ids))))"
  using assms
proof (induction ids arbitrary: s)
  case Nil
  then show ?case by (simp add: last_writer_def)
next
  case (Cons i ids)
  let ?s1 = "app_resolve i (answer i) s"
  have pend: "map_of (inflight s) i = Some SearchRequest" using Cons.prems by simp
  have "\<forall>j\<in>set ids. map_of (inflight ?s1) j = Some SearchRequest"
  proof
    fix j assume "j \<in> set ids"
    with Cons.prems have "j \<noteq> i" "map_of (inflight s) j = Some SearchRequest" by auto
    then show "map_of (inflight ?s1) j = Some SearchRequest" by (simp add: resolve_search_stream(4)[OF pend])
  qed
  then have IH: "items (movies (app_run ?s1 (map (\<lambda>i. Resolve i (answer i)) ids)))
           = last_writer (items (movies ?s1)) (map (\<lambda>i. awaited_results (answer i)) ids) \<and>
         err (movies (app_run ?s1 (map (\<lambda>i. Resolve i (answer i)) ids)))
           = (if list_ex (\<lambda>i. isl (awaited_results (answer i))) ids then Some SEARCH_ERROR
              else err (movies ?s1)) \<and>
         (ids = [] \<or> \<not> loading (movies (app_run ?s1 (map (\<lambda>i. Resolve i (answer i)) ids))))"
    using Cons.prems by (intro Cons.IH) simp_all
  have run: "app_run s (map (\<lambda>i. Resolve i (answer i)) (i # ids)) = app_run ?s1 (map (\<lambda>i. Resolve i (answer i)) ids)"
    by simp
  have "items (movies (app_run ?s1 (map (\<lambda>i. Resolve i (answer i)) ids)))
      = last_writer (items (movies s)) (map (\<lambda>i. awaited_results (answer i)) (i # ids))"
    using IH resolve_search_stream(1)[OF pend, of "answer i"] by (simp only: list.map last_writer_Cons)
  moreover have "err (movies (app_run ?s1 (map (\<lambda>i. Resolve i (answer i)) ids)))
      = (if list_ex (\<lambda>i. isl (awaited_results (answer i))) (i # ids) then Some SEARCH_ERROR else err (movies s))"
    using IH resolve_search_stream(2)[OF pend, of "answer i"] by simp
  moreover have "\<not> loading (movies (app_run ?s1 (map (\<lambda>i. Resolve i (answer i)) ids)))"
    using IH resolve_search_stream(3)[OF pend, of "answer i"] by (cases ids) simp_all
  ultimately show ?case unfolding run by blast
qed

theorem last_resolved_wins_witness:
  "distinct [2, 0::nat] \<and>
   map_of (inflight (app_run (initial_app None) [Mount, Type [0x61], Tick 700])) 2 = Some SearchRequest \<and>
   map_of (inflight (app_run (initial_app None) [Mount, Type [0x61], Tick 700])) 0 = Some SearchRequest \<and>
   err (movies (app_run (app_run (initial_app None) [Mount, Type [0x61], Tick 700])
     (map (\<lambda>i. Resolve i (if i = 2 then Response 200 (Some (JObj [(''results'', JArr [JObj []])]))
                           else Response 500 None)) [2, 0]))) = Some SEARCH_ERROR"
proof -
  let ?s = "app_run (initial_app None) [Mount, Type [0x61], Tick 700]"
  let ?ans = "\<lambda>i::nat. if i = 2 then Response 200 (Some (JObj [(''results'', JArr [JObj []])]))
                       else Response 500 None"
  have d: "distinct [2, 0::nat]" by simp
  have p2: "map_of (inflight ?s) 2 = Some SearchRequest" by code_simp
  have p0: "map_of (inflight ?s) 0 = Some SearchRequest" by code_simp
  have p: "\<forall>i\<in>set [2, 0]. map_of (inflight ?s) i = Some SearchRequest" using p2 p0 by simp
  have f: "list_ex (\<lambda>i. isl (awaited_results (?ans i))) [2, 0]"
    by (simp add: awaited_results_def fetchTMDB_result_def response_ok_def)
  from last_resolved_wins[OF d p, of ?ans] f d p2 p0 show ?thesis by simp
qed

subsection \<open>Answers in issue order\<close>

lemma settle_all_step:
  "inflight s = p # ps \<Longrightarrow> settle_all answer s = settle_all answer (app_resolve (fst p) (answer (fst p)) s)"
  by (simp add: settle_all.simps [of answer s])

lemma settle_all_movies:
  "items (movies (settle_all answer s)) =
     last_writer (items (movies s)) (map (\<lambda>p. awaited_results (answer (fst p))) (kind_inflight SearchRequest s))"
proof (induction "length (inflight s)" arbitrary: s)
  case 0
  then show ?case by (simp add: settle_all.simps [of answer s] kind_inflight_def last_writer_def)
next
  case (Suc n)
  then obtain i k ps where h: "inflight s = (i, k) # ps" by (cases "inflight s") auto
  let ?s1 = "app_resolve i (answer i) s"
  have i1: "inflight ?s1 = ps" using inflight_resolve_head[OF h] by simp
  have IH: "items (movies (settle_all answer ?s1)) =
     last_writer (items (movies ?s1)) (map (\<lambda>p. awaited_results (answer (fst p))) (kind_inflight SearchRequest ?s1))"
    using Suc(2) h i1 by (intro Suc(1)) simp
  have m: "map_of (inflight s) i = Some k" using h by simp
  show ?case
  proof (cases k)
    case SearchRequest
    then show ?thesis
      using IH h i1 resolve_search_stream(1)[OF m[unfolded SearchRequest]]
      by (simp add: settle_all_step[OF h] kind_inflight_def last_writer_Cons)
  next
    case TrendingRequest
    then show ?thesis
      using IH h i1 m by (simp add: settle_all_step[OF h] kind_inflight_def app_resolve_trending)
  qed
qed

lemma last_writer_all_Inr:
  "list_all (\<lambda>r. \<not> isl r) rs \<Longrightarrow> rs \<noteq> [] \<Longrightarrow> last rs = Inr (last_writer v rs)"
  by (induction rs arbitrary: v) (auto simp: last_writer_Cons last_writer_def split: sum.split)

text \<open>
  Answered in issue order (the order of \<open>inflight\<close>, which is the order in which
  \<open>fetchMovies\<close> issued them), successful search requests leave the list holding the
  results of the last pending one.
\<close>

lemma settle_all_last_pending:
  assumes "kind_inflight SearchRequest s \<noteq> []"
    and "list_all (\<lambda>p. \<not> isl (awaited_results (answer (fst p)))) (kind_inflight SearchRequest s)"
  shows "awaited_results (answer (fst (last (kind_inflight SearchRequest s))))
           = Inr (items (movies (settle_all answer s)))"
  using last_writer_all_Inr[of "map (\<lambda>p. awaited_results (answer (fst p))) (kind_inflight SearchRequest s)"] assms
  by (simp add: settle_all_movies last_map list.pred_map comp_def)

subsection \<open>Responses never steer the scheduler or the requests\<close>

lemma control_run_fetchMovies:
  "control_view s = control_view s' \<Longrightarrow> control_view (run_fetchMovies q s) = control_view (run_fetchMovies q s')"
  by (cases "search_endpoint q") (simp_all add: control_view_def run_fetchMovies_Inl run_fetchMovies_Inr)

lemma control_run_loadTrendingMovies:
  "control_view s = control_view s' \<Longrightarrow> control_view (run_loadTrendingMovies s) = control_view (run_loadTrendingMovies s')"
  by (simp add: control_view_def run_loadTrendingMovies_eq)

lemma control_update:
  "control_view s = control_view s' \<Longrightarrow>
   control_view (s\<lparr>mounted := True, debounce_deadline := d\<rparr>) = control_view (s'\<lparr>mounted := True, debounce_deadline := d\<rparr>)"
  "control_view s = control_view s' \<Longrightarrow>
   control_view (s\<lparr>debounce_deadline := None, debouncedSearchTerm := v\<rparr>) = control_view (s'\<lparr>debounce_deadline := None, debouncedSearchTerm := v\<rparr>)"
  "control_view s = control_view s' \<Longrightarrow>
   control_view (s\<lparr>debounce_deadline := None\<rparr>) = control_view (s'\<lparr>debounce_deadline := None\<rparr>)"
  "control_view s = control_view s' \<Longrightarrow>
   control_view (s\<lparr>clock := c\<rparr>) = control_view (s'\<lparr>clock := c\<rparr>)"
  "control_view s = control_view s' \<Longrightarrow>
   control_view (s\<lparr>searchTerm := v, debounce_deadline := d\<rparr>) = control_view (s'\<lparr>searchTerm := v, debounce_deadline := d\<rparr>)"
  by (simp_all add: control_view_def)

lemma control_fire:
  assumes "control_view s = control_view s'"
  shows "control_view (debounce_fire s) = control_view (debounce_fire s')"
proof -
  have eq: "searchTerm s' = searchTerm s" "debouncedSearchTerm s' = debouncedSearchTerm s"
    using assms by (simp_all add: control_view_def)
  show ?thesis
  proof (cases "searchTerm s = debouncedSearchTerm s")
    case True
    then show ?thesis using control_update(3)[OF assms] by (simp add: debounce_fire_def eq)
  next
    case False
    have "control_view (run_fetchMovies (searchTerm s) (s\<lparr>debounce_deadline := None, debouncedSearchTerm := searchTerm s\<rparr>))
        = control_view (run_fetchMovies (searchTerm s) (s'\<lparr>debounce_deadline := None, debouncedSearchTerm := searchTerm s\<rparr>))"
      by (rule control_run_fetchMovies[OF control_update(2)[OF assms]])
    with False show ?thesis by (simp add: debounce_fire_def eq)
  qed
qed

lemma control_mount:
  assumes "control_view s = control_view s'"
  shows "control_view (app_mount s) = control_view (app_mount s')"
proof -
  have eq: "mounted s' = mounted s" "clock s' = clock s" "debouncedSearchTerm s' = debouncedSearchTerm s"
    using assms by (simp_all add: control_view_def)
  let ?u = "\<lambda>s. s\<lparr>mounted := True, debounce_deadline := Some (clock s + DEBOUNCE_MS)\<rparr>"
  have "control_view (run_loadTrendingMovies (run_fetchMovies (debouncedSearchTerm s) (?u s)))
      = control_view (run_loadTrendingMovies (run_fetchMovies (debouncedSearchTerm s) (?u s')))"
    using control_update(1)[OF assms, of "Some (clock s + DEBOUNCE_MS)"] eq
    by (intro control_run_loadTrendingMovies control_run_fetchMovies) simp
  then show ?thesis using assms by (simp add: app_mount_def eq)
qed

lemma control_tick:
  assumes "control_view s = control_view s'"
  shows "control_view (app_tick d s) = control_view (app_tick d s')"
proof -
  have eq: "clock s' = clock s" "debounce_deadline s' = debounce_deadline s"
    using assms by (simp_all add: control_view_def)
  have u: "control_view (s\<lparr>clock := clock s + d\<rparr>) = control_view (s'\<lparr>clock := clock s + d\<rparr>)"
    by (rule control_update(4)[OF assms])
  show ?thesis
  proof (cases "debounce_deadline s")
    case None
    with u show ?thesis by (simp add: app_tick_def eq)
  next
    case (Some t)
    show ?thesis
    proof (cases "t \<le> clock s + d")
      case True
      with Some control_fire[OF u] show ?thesis by (simp add: app_tick_def eq)
    next
      case False
      with Some u show ?thesis by (simp add: app_tick_def eq)
    qed
  qed
qed

lemma control_type:
  "control_view s = control_view s' \<Longrightarrow> control_view (app_type v s) = control_view (app_type v s')"
  by (simp add: control_view_def app_type_def)

lemma control_step:
  assumes "control_view s = control_view s'" and "\<not> is_resolve e"
  shows "control_view (app_step s e) = control_view (app_step s' e)"
proof (cases e)
  case (Resolve i r)
  with assms(2) show ?thesis by simp
qed (simp_all add: control_mount[OF assms(1)] control_type[OF assms(1)] control_tick[OF assms(1)])

lemma control_resolve: "control_view (app_resolve i r s) = control_view s"
proof (cases "map_of (inflight s) i")
  case None
  then show ?thesis by (simp add: app_resolve_none)
next
  case (Some k)
  then show ?thesis
    by (cases k) (simp_all add: control_view_def app_resolve_search app_resolve_trending)
qed

lemma control_run:
  "control_view s = control_view s' \<Longrightarrow>
   control_view (app_run s es) = control_view (app_run s' (filter (\<lambda>e. \<not> is_resolve e) es))"
proof (induction es arbitrary: s s')
  case Nil
  then show ?case by simp
next
  case (Cons e es)
  show ?case
  proof (cases "is_resolve e")
    case True
    then obtain i r where e: "e = Resolve i r" by (cases e) auto
    have "control_view (app_resolve i r s) = control_view s'"
      using Cons.prems by (simp add: control_resolve)
    then show ?thesis using Cons.IH e by simp
  next
    case False
    have "control_view (app_step s e) = control_view (app_step s' e)"
      by (rule control_step[OF Cons.prems False])
    then show ?thesis using Cons.IH False by simp
  qed
qed

text \<open>
  C16. Responses never steer the application: the debounce state, the clock and the log
  of issued requests after any run are those of the same run with every settlement
  removed, so no response, its timing or its order can cause, suppress or alter a
  request (no retries, no deduplication, spec sections 4.1 and 7).
\<close>

theorem responses_do_not_steer:
  "control_view (app_run s es) = control_view (app_run s (filter (\<lambda>e. \<not> is_resolve e) es))"
  by (rule control_run) (rule refl)

end
