(* ===== verification/Debounce.thy ===== *)
theory Debounce
  imports Liveness
begin

text \<open>
  The Debounce Scheduler of spec section 4.2 as an abstract component, and the proof
  that the application implements it.  The spec's scheduler (section 9 suggests making
  it an explicit object with \<open>onInputChange(value)\<close> and a stable output) keeps the
  latest input, the stable value, one timer and the current time: a change of the input
  (re)starts the timer for the quiet period; when the timer elapses the stable value
  becomes the latest input and the timer is gone.  The abstraction \<open>sched_abs\<close> reads
  the application's \<open>searchTerm\<close>, \<open>debouncedSearchTerm\<close>, pending deadline and
  clock as such a scheduler; after mounting, every event of the application moves it
  exactly as the abstract scheduler moves on the same event (settlements and repeated
  mounts do not touch it).
\<close>

subsection \<open>The abstract scheduler\<close>

record scheduler =
  sch_input :: js_string
  sch_stable :: js_string
  sch_timer :: "time option"
  sch_now :: time

definition QUIET_PERIOD :: nat where
  "QUIET_PERIOD = 700"

definition on_input_change :: "js_string \<Rightarrow> scheduler \<Rightarrow> scheduler" where
  "on_input_change v sc =
     (if v = sch_input sc then sc
      else sc\<lparr>sch_input := v, sch_timer := Some (sch_now sc + QUIET_PERIOD)\<rparr>)"

definition advance :: "nat \<Rightarrow> scheduler \<Rightarrow> scheduler" where
  "advance d sc =
     (let sc1 = sc\<lparr>sch_now := sch_now sc + d\<rparr> in
      case sch_timer sc1 of
        None \<Rightarrow> sc1
      | Some t \<Rightarrow> if t \<le> sch_now sc1 then sc1\<lparr>sch_stable := sch_input sc1, sch_timer := None\<rparr> else sc1)"

text \<open>The scheduler's reaction to each event of the application.\<close>

fun sched_step :: "scheduler \<Rightarrow> event \<Rightarrow> scheduler" where
  "sched_step sc (Type v) = on_input_change v sc"
| "sched_step sc (Tick d) = advance d sc"
| "sched_step sc Mount = sc"
| "sched_step sc (Resolve i r) = sc"

definition sched_abs :: "app_state \<Rightarrow> scheduler" where
  "sched_abs s =
     \<lparr>sch_input = searchTerm s, sch_stable = debouncedSearchTerm s,
      sch_timer = debounce_deadline s, sch_now = clock s\<rparr>"

subsection \<open>Refinement\<close>

lemma sched_abs_fire:
  "sched_abs (debounce_fire s) = (sched_abs s)\<lparr>sch_stable := searchTerm s, sch_timer := None\<rparr>"
  by (simp add: sched_abs_def debounce_fire_def Let_def)

lemma sched_abs_tick: "sched_abs (app_tick d s) = advance d (sched_abs s)"
  by (simp add: app_tick_def advance_def Let_def sched_abs_fire split: option.split)
     (simp add: sched_abs_def)

lemma sched_abs_type: "mounted s \<Longrightarrow> sched_abs (app_type v s) = on_input_change v (sched_abs s)"
  by (simp add: app_type_def on_input_change_def sched_abs_def DEBOUNCE_MS_def QUIET_PERIOD_def)

lemma sched_abs_resolve: "sched_abs (app_resolve i r s) = sched_abs s"
  using app_resolve_timer_frame[of i r s] by (simp add: sched_abs_def)

text \<open>
  C7. After mounting, the application's debounce (\<open>useDebounce\<close> with
  \<open>searchTerm\<close>, \<open>debouncedSearchTerm\<close> and its timer) refines the Debounce
  Scheduler of spec section 4.2: every event moves the abstraction exactly as the
  abstract scheduler moves.
\<close>

theorem debounce_refines_scheduler:
  "mounted s \<Longrightarrow> sched_abs (app_step s e) = sched_step (sched_abs s) e"
  by (cases e) (simp_all add: app_mount_def sched_abs_tick sched_abs_type sched_abs_resolve)

theorem debounce_refines_scheduler_witness:
  "mounted (app_run (initial_app None) [Mount]) \<and>
   sched_abs (app_step (app_run (initial_app None) [Mount]) (Type [0x61]))
     = on_input_change [0x61] (sched_abs (app_run (initial_app None) [Mount]))"
proof -
  have m: "mounted (app_run (initial_app None) [Mount])" by code_simp
  from m debounce_refines_scheduler[OF m, of "Type [0x61]"] show ?thesis by simp
qed

end
