(* ===== verification/Requests.thy ===== *)
theory Requests
  imports Liveness "HOL-Library.Sublist"
begin

text \<open>
  Which search requests a run issues.  Spec section 4.3: every change of the stable
  query (by value), including the initial empty value at startup, causes exactly one
  fetch.  The per-event form (\<open>search_fetch_per_change\<close>: an event issues a search
  request exactly when it changes \<open>debouncedSearchTerm\<close> or is the first mount) is
  lifted to whole runs: from the initial state, the URLs of the search requests, in
  order, are one per value that \<open>debouncedSearchTerm\<close> takes while mounted, with
  consecutive repetitions collapsed, except the values whose encoding throws.  In
  particular the last search request issued is always the one for the current stable
  query.  The invariant \<open>issue_inv\<close> of the request log (fresh distinct ids, pending
  requests a subsequence of the log) shows that when the most recently issued search
  request is still pending it is the last of the pending ones.
\<close>

subsection \<open>Definitions\<close>

text \<open>The states a run passes through, after each event.\<close>

fun run_states :: "app_state \<Rightarrow> event list \<Rightarrow> app_state list" where
  "run_states s [] = []"
| "run_states s (e # es) = app_step s e # run_states (app_step s e) es"

text \<open>The URLs of the search requests in the log.\<close>

definition search_urls :: "app_state \<Rightarrow> string list" where
  "search_urls s = map (\<lambda>(i, k, u). u) (kind_requests SearchRequest s)"

text \<open>The URL \<open>fetchMovies(q)\<close> requests, if encoding \<open>q\<close> does not throw.\<close>

definition search_url_of :: "string option \<Rightarrow> js_string \<Rightarrow> string list" where
  "search_url_of key q = (case search_endpoint q of Inl e \<Rightarrow> [] | Inr ep \<Rightarrow> [tmdb_url key ep])"

text \<open>
  The request log keeps issue order: ids are fresh and distinct, and the pending
  requests are a subsequence of the log, so the pending ones stay in the order they were
  issued.
\<close>

definition log_ok :: "(nat \<times> request_kind) list \<Rightarrow> (nat \<times> request_kind \<times> string) list \<Rightarrow> nat \<Rightarrow> bool" where
  "log_ok fl rq n \<longleftrightarrow>
     distinct (map fst rq) \<and> (\<forall>x\<in>set rq. fst x < n) \<and> subseq fl (map (\<lambda>(i, k, u). (i, k)) rq)"

definition issue_inv :: "app_state \<Rightarrow> bool" where
  "issue_inv s \<longleftrightarrow> log_ok (inflight s) (requests s) (next_id s)"

subsection \<open>One event\<close>

lemma search_requests_mount_first:
  assumes "\<not> mounted s"
  shows "kind_requests SearchRequest (app_mount s) =
           kind_requests SearchRequest s @ search_fetch_of s (debouncedSearchTerm s) \<and>
         debouncedSearchTerm (app_mount s) = debouncedSearchTerm s"
proof -
  let ?s0 = "s\<lparr>mounted := True, debounce_deadline := Some (clock s + DEBOUNCE_MS)\<rparr>"
  have "kind_requests SearchRequest (app_mount s) = kind_requests SearchRequest ?s0 @ search_fetch_of ?s0 (debouncedSearchTerm s)"
    using assms by (simp add: app_mount_def search_requests_run_loadTrendingMovies search_requests_run_fetchMovies)
  moreover have "debouncedSearchTerm (app_mount s) = debouncedSearchTerm s"
    using assms by (simp add: app_mount_def run_loadTrendingMovies_eq run_fetchMovies_def split: prod.split)
  ultimately show ?thesis by (simp add: kind_requests_def search_fetch_of_def split: sum.split)
qed

lemma search_requests_fire_change:
  assumes "searchTerm s \<noteq> debouncedSearchTerm s"
  shows "kind_requests SearchRequest (debounce_fire s) =
           kind_requests SearchRequest s @ search_fetch_of s (searchTerm s) \<and>
         debouncedSearchTerm (debounce_fire s) = searchTerm s"
proof -
  let ?s2 = "s\<lparr>debounce_deadline := None, debouncedSearchTerm := searchTerm s\<rparr>"
  have f: "debounce_fire s = run_fetchMovies (searchTerm s) ?s2"
    using assms by (simp add: debounce_fire_def Let_def)
  have d: "debouncedSearchTerm (run_fetchMovies (searchTerm s) ?s2) = searchTerm s"
    by (simp add: run_fetchMovies_def split: prod.split)
  have "kind_requests SearchRequest ?s2 = kind_requests SearchRequest s"
    "search_fetch_of ?s2 (searchTerm s) = search_fetch_of s (searchTerm s)"
    by (simp_all add: kind_requests_def search_fetch_of_def split: sum.split)
  with d show ?thesis unfolding f by (simp add: search_requests_run_fetchMovies)
qed

lemma search_fetch_per_change:
  "kind_requests SearchRequest (app_step s e) = kind_requests SearchRequest s @
     (if debouncedSearchTerm (app_step s e) \<noteq> debouncedSearchTerm s \<or> (e = Mount \<and> \<not> mounted s)
      then search_fetch_of s (debouncedSearchTerm (app_step s e)) else [])"
proof (cases e)
  case Mount
  then show ?thesis
    using search_requests_mount_first[of s] by (cases "mounted s") (simp_all add: app_mount_def)
next
  case (Type v)
  then show ?thesis by (simp add: app_type_def kind_requests_def)
next
  case (Tick d)
  let ?s1 = "s\<lparr>clock := clock s + d\<rparr>"
  show ?thesis
  proof (cases "\<exists>t. debounce_deadline s = Some t \<and> t \<le> clock s + d")
    case False
    then have "app_tick d s = ?s1" by (auto simp: app_tick_def Let_def split: option.split)
    with Tick show ?thesis by (simp add: kind_requests_def)
  next
    case True
    then have fire: "app_tick d s = debounce_fire ?s1" by (auto simp: app_tick_def Let_def)
    show ?thesis
    proof (cases "searchTerm s = debouncedSearchTerm s")
      case True
      with fire Tick show ?thesis by (simp add: debounce_fire_def kind_requests_def)
    next
      case False
      with fire Tick search_requests_fire_change[of ?s1] show ?thesis
        by (simp add: kind_requests_def search_fetch_of_def split: sum.split)
    qed
  qed
next
  case (Resolve i r)
  then show ?thesis using app_resolve_frame[of i r s] by (simp add: kind_requests_def)
qed

lemma search_urls_step:
  "search_urls (app_step s e) = search_urls s @
     (if debouncedSearchTerm (app_step s e) \<noteq> debouncedSearchTerm s \<or> (e = Mount \<and> \<not> mounted s)
      then search_url_of (api_key s) (debouncedSearchTerm (app_step s e)) else [])"
  using search_fetch_per_change[of s e]
  by (simp add: search_urls_def search_fetch_of_def search_url_of_def split: sum.split)

lemma api_key_step [simp]: "api_key (app_step s e) = api_key s"
proof (cases e)
  case (Resolve i r)
  show ?thesis
  proof (cases "map_of (inflight s) i")
    case None
    with Resolve show ?thesis by (simp add: app_resolve_none)
  next
    case (Some k)
    with Resolve show ?thesis by (cases k) (simp_all add: app_resolve_search app_resolve_trending)
  qed
next
  case Mount
  then show ?thesis
    by (simp add: app_mount_def run_loadTrendingMovies_eq run_fetchMovies_def split: prod.split)
next
  case (Type v)
  then show ?thesis by (simp add: app_type_def)
next
  case (Tick d)
  then show ?thesis
    by (simp add: app_tick_def debounce_fire_def Let_def run_fetchMovies_def split: option.split prod.split)
qed

lemma mounted_step: "mounted s \<Longrightarrow> mounted (app_step s e)"
proof (cases e)
  case (Resolve i r)
  assume "mounted s"
  with Resolve app_resolve_timer_frame[of i r s] show ?thesis by simp
next
  case (Tick d)
  assume "mounted s"
  with Tick debounce_fire_synced[of "s\<lparr>clock := clock s + d\<rparr>"] show ?thesis
    by (simp add: app_tick_def Let_def split: option.split)
qed (simp_all add: app_mount_def app_type_def)

lemma run_states_mounted: "mounted s \<Longrightarrow> filter mounted (run_states s es) = run_states s es"
  by (induction es arbitrary: s) (simp_all add: mounted_step)

lemma remdups_adj_Cons_tl: "remdups_adj (x # xs) = x # tl (remdups_adj (x # xs))"
  by (cases xs) simp_all

lemma tl_remdups_adj_Cons2:
  "tl (remdups_adj (x # y # ys)) = (if x = y then tl (remdups_adj (y # ys)) else remdups_adj (y # ys))"
  by (simp add: remdups_adj_Cons_tl[of y ys, symmetric])

subsection \<open>Whole runs\<close>

lemma search_urls_run_mounted:
  "mounted s \<Longrightarrow>
   search_urls (app_run s es) = search_urls s @
     concat (map (search_url_of (api_key s)) (tl (remdups_adj (debouncedSearchTerm s # map debouncedSearchTerm (run_states s es)))))"
proof (induction es arbitrary: s)
  case Nil
  then show ?case by simp
next
  case (Cons e es)
  let ?s' = "app_step s e"
  have m: "mounted ?s'" using Cons.prems by (rule mounted_step)
  have IH: "search_urls (app_run ?s' es) = search_urls ?s' @
     concat (map (search_url_of (api_key s)) (tl (remdups_adj (debouncedSearchTerm ?s' # map debouncedSearchTerm (run_states ?s' es)))))"
    using Cons.IH[OF m] by simp
  let ?d = "debouncedSearchTerm s" and ?d' = "debouncedSearchTerm ?s'"
  let ?ds = "map debouncedSearchTerm (run_states ?s' es)" and ?f = "search_url_of (api_key s)"
  have step: "search_urls ?s' = search_urls s @ (if ?d' \<noteq> ?d then ?f ?d' else [])"
    using search_urls_step[of s e] Cons.prems by simp
  have "concat (map ?f (tl (remdups_adj (?d # ?d' # ?ds))))
      = (if ?d' \<noteq> ?d then ?f ?d' else []) @ concat (map ?f (tl (remdups_adj (?d' # ?ds))))"
  proof (cases "?d = ?d'")
    case True
    then show ?thesis by (simp only: tl_remdups_adj_Cons2) simp
  next
    case False
    have "tl (remdups_adj (?d # ?d' # ?ds)) = remdups_adj (?d' # ?ds)"
      using tl_remdups_adj_Cons2[of ?d ?d' ?ds] by (simp only: if_not_P[OF False])
    also have "\<dots> = ?d' # tl (remdups_adj (?d' # ?ds))" by (rule remdups_adj_Cons_tl)
    finally have t: "tl (remdups_adj (?d # ?d' # ?ds)) = ?d' # tl (remdups_adj (?d' # ?ds))" .
    have ne: "?d' \<noteq> ?d" using False by simp
    show ?thesis by (simp only: t list.map concat.simps if_P[OF ne])
  qed
  then show ?case using IH step by simp
qed


lemma unmounted_step:
  assumes "app_inv s" and "\<not> mounted s" and "e \<noteq> Mount"
  shows "\<not> mounted (app_step s e) \<and> debouncedSearchTerm (app_step s e) = debouncedSearchTerm s"
proof -
  have pre: "inflight s = []" "debounce_deadline s = None"
    using assms(1,2) unfolding app_inv_def by blast+
  show ?thesis
  proof (cases e)
    case (Type v)
    with assms(2) show ?thesis by (simp add: app_type_def)
  next
    case (Tick d)
    with assms(2) pre show ?thesis by (simp add: app_tick_def)
  next
    case (Resolve i r)
    with assms(2) pre show ?thesis by (simp add: app_resolve_none)
  qed (use assms(3) in simp)
qed

lemma search_urls_run_unmounted:
  "app_inv s \<Longrightarrow> \<not> mounted s \<Longrightarrow>
   search_urls (app_run s es) = search_urls s @
     concat (map (search_url_of (api_key s)) (remdups_adj (map debouncedSearchTerm (filter mounted (run_states s es)))))"
proof (induction es arbitrary: s)
  case Nil
  then show ?case by simp
next
  case (Cons e es)
  let ?s' = "app_step s e"
  show ?case
  proof (cases "e = Mount")
    case True
    have m: "mounted ?s'" using True Cons.prems(2) by (simp add: app_mount_def)
    let ?d' = "debouncedSearchTerm ?s'" and ?ds = "map debouncedSearchTerm (run_states ?s' es)"
    have step: "search_urls ?s' = search_urls s @ search_url_of (api_key s) ?d'"
      using search_urls_step[of s e] True Cons.prems(2) by simp
    have run: "search_urls (app_run ?s' es) = search_urls ?s' @
        concat (map (search_url_of (api_key s)) (tl (remdups_adj (?d' # ?ds))))"
      using search_urls_run_mounted[OF m, of es] by simp
    have f: "filter mounted (run_states s (e # es)) = ?s' # run_states ?s' es"
      using m run_states_mounted[OF m, of es] by simp
    have c: "concat (map (search_url_of (api_key s)) (remdups_adj (?d' # ?ds)))
        = search_url_of (api_key s) ?d' @ concat (map (search_url_of (api_key s)) (tl (remdups_adj (?d' # ?ds))))"
    proof -
      have "concat (map (search_url_of (api_key s)) (?d' # tl (remdups_adj (?d' # ?ds))))
        = search_url_of (api_key s) ?d' @ concat (map (search_url_of (api_key s)) (tl (remdups_adj (?d' # ?ds))))"
        by (simp only: list.map concat.simps)
      then show ?thesis unfolding remdups_adj_Cons_tl[of ?d' ?ds, symmetric] .
    qed
    show ?thesis
      using step run by (simp only: f list.map c app_run.simps append_assoc)
  next
    case False
    have u: "\<not> mounted ?s'" "debouncedSearchTerm ?s' = debouncedSearchTerm s"
      using unmounted_step[OF Cons.prems False] by simp_all
    have step: "search_urls ?s' = search_urls s"
      using search_urls_step[of s e] u False by simp
    have inv: "app_inv ?s'" using Cons.prems(1) by (rule app_inv_step)
    show ?thesis using Cons.IH[OF inv u(1)] step u(1) by simp
  qed
qed

lemma api_key_run: "api_key (app_run s es) = api_key s"
  by (induction es arbitrary: s) simp_all

lemma reachable_last_search_url:
  "reachable s \<Longrightarrow> mounted s \<Longrightarrow> search_url_of (api_key s) (debouncedSearchTerm s) = [u] \<Longrightarrow>
   last (search_urls s) = u"
proof (induction s rule: reachable.induct)
  case (init key)
  then show ?case by (simp add: initial_app_def)
next
  case (step s e)
  let ?s' = "app_step s e"
  show ?case
  proof (cases "debouncedSearchTerm ?s' \<noteq> debouncedSearchTerm s \<or> (e = Mount \<and> \<not> mounted s)")
    case True
    then show ?thesis using search_urls_step[of s e] step.prems(2) by simp
  next
    case False
    have m: "mounted s"
    proof (rule ccontr)
      assume "\<not> mounted s"
      with False have "e \<noteq> Mount" by blast
      with \<open>\<not> mounted s\<close> reachable_app_inv[OF step.hyps(1)] have "\<not> mounted ?s'"
        using unmounted_step by blast
      with step.prems(1) show False by simp
    qed
    have "last (search_urls s) = u" using False step.prems(2) by (intro step.IH m) simp
    then show ?thesis using search_urls_step[of s e] False m by simp
  qed
qed

subsection \<open>The request log keeps issue order\<close>

lemma subseq_remove1: "subseq (remove1 x xs) xs"
  by (induction xs) auto

lemma log_ok_issue:
  assumes "log_ok fl rq n"
  shows "log_ok (fl @ [(n, k)]) (rq @ [(n, k, u)]) (Suc n)"
proof -
  have d: "distinct (map fst rq)" and lt: "\<forall>x\<in>set rq. fst x < n"
    and e: "subseq fl (map (\<lambda>(i, k, u). (i, k)) rq)" using assms by (simp_all add: log_ok_def)
  have "n \<notin> fst ` set rq" using lt by auto
  with d have "distinct (map fst (rq @ [(n, k, u)]))" by simp
  moreover have "\<forall>x\<in>set (rq @ [(n, k, u)]). fst x < Suc n" using lt by auto
  moreover have "subseq (fl @ [(n, k)]) (map (\<lambda>(i, k, u). (i, k)) (rq @ [(n, k, u)]))"
    using e by (simp only: map_append list.map subseq_append) simp
  ultimately show ?thesis by (simp only: log_ok_def)
qed

lemma log_ok_remove1: "log_ok fl rq n \<Longrightarrow> log_ok (remove1 p fl) rq n"
  unfolding log_ok_def using subseq_order.order_trans[OF subseq_remove1[of p fl]] by simp

lemma issue_inv_apply_effects: "issue_inv s \<Longrightarrow> issue_inv (apply_effects k es s)"
proof (induction es arbitrary: s)
  case Nil
  then show ?case by simp
next
  case (Cons e es)
  have "issue_inv (apply_effect k e s)"
    using Cons.prems by (cases e) (simp_all add: issue_inv_def log_ok_issue)
  then show ?case using Cons.IH by (simp add: apply_effects_def)
qed

lemma issue_inv_run_fetchMovies: "issue_inv s \<Longrightarrow> issue_inv (run_fetchMovies q s)"
  using issue_inv_apply_effects[of "s\<lparr>movies := st\<rparr>" for st]
  by (simp add: run_fetchMovies_def issue_inv_def split: prod.split)

lemma issue_inv_run_loadTrendingMovies: "issue_inv s \<Longrightarrow> issue_inv (run_loadTrendingMovies s)"
  by (simp add: run_loadTrendingMovies_eq issue_inv_def log_ok_issue)

lemma issue_inv_fire: "issue_inv s \<Longrightarrow> issue_inv (debounce_fire s)"
proof -
  assume inv: "issue_inv s"
  then have "issue_inv (s\<lparr>debounce_deadline := None\<rparr>)"
    "issue_inv (s\<lparr>debounce_deadline := None, debouncedSearchTerm := searchTerm s\<rparr>)"
    by (simp_all add: issue_inv_def)
  then show ?thesis by (simp add: debounce_fire_def Let_def issue_inv_run_fetchMovies)
qed

lemma issue_inv_step: "issue_inv s \<Longrightarrow> issue_inv (app_step s e)"
proof (cases e)
  case Mount
  assume "issue_inv s"
  then have "issue_inv (s\<lparr>mounted := True, debounce_deadline := Some (clock s + DEBOUNCE_MS)\<rparr>)"
    by (simp add: issue_inv_def)
  with Mount \<open>issue_inv s\<close> show ?thesis
    by (simp add: app_mount_def issue_inv_run_fetchMovies issue_inv_run_loadTrendingMovies)
next
  case (Type v)
  assume "issue_inv s"
  with Type show ?thesis by (simp add: app_type_def issue_inv_def)
next
  case (Tick d)
  assume "issue_inv s"
  with Tick issue_inv_fire[of "s\<lparr>clock := clock s + d\<rparr>"] show ?thesis
    by (simp add: app_tick_def Let_def issue_inv_def split: option.split)
next
  case (Resolve i r)
  assume inv: "issue_inv s"
  show ?thesis
  proof (cases "map_of (inflight s) i")
    case None
    with inv Resolve show ?thesis by (simp add: app_resolve_none)
  next
    case (Some k)
    have "issue_inv (s\<lparr>inflight := remove1 (i, k) (inflight s), movies := st\<rparr>)"
      "issue_inv (s\<lparr>inflight := remove1 (i, k) (inflight s), trending := st\<rparr>)" for st
      using inv by (simp_all add: issue_inv_def log_ok_remove1)
    with Some Resolve show ?thesis
      by (cases k) (simp_all add: app_resolve_def Let_def issue_inv_apply_effects split: prod.split)
  qed
qed

lemma reachable_issue_inv: "reachable s \<Longrightarrow> issue_inv s"
proof (induction rule: reachable.induct)
  case (init key)
  show ?case by (simp add: issue_inv_def log_ok_def initial_app_def)
next
  case (step s e)
  from step.IH show ?case by (rule issue_inv_step)
qed

lemma subseq_snoc_last:
  assumes "subseq xs (ys @ [x])" "x \<in> set xs" "x \<notin> set ys"
  shows "last xs = x"
proof -
  obtain xs1 xs2 where sp: "xs = xs1 @ xs2" "subseq xs1 ys" "subseq xs2 [x]"
    using assms(1) by (rule subseq_appendE)
  have "x \<notin> set xs1" using sp(2) assms(3) by (auto elim: list_emb_set)
  moreover have "xs2 = [] \<or> xs2 = [x]" using sp(3) by (cases xs2) (auto split: if_splits)
  ultimately have "xs2 = [x]" using assms(2) sp(1) by auto
  then show ?thesis using sp(1) by simp
qed

lemma kind_requests_proj:
  "filter (\<lambda>(i, k'). k' = k) (map (\<lambda>(i, k, u). (i, k)) rq) =
   map (\<lambda>(i, k, u). (i, k)) (filter (\<lambda>(i, k', u). k' = k) rq)"
  by (induction rq) auto

lemma last_pending_search:
  assumes inv: "issue_inv s"
    and last: "kind_requests SearchRequest s = rs @ [(i, SearchRequest, v)]"
    and pend: "(i, SearchRequest) \<in> set (inflight s)"
  shows "last (kind_inflight SearchRequest s) = (i, SearchRequest)"
proof (rule subseq_snoc_last)
  have "subseq (kind_inflight SearchRequest s)
      (filter (\<lambda>(i, k'). k' = SearchRequest) (map (\<lambda>(i, k, u). (i, k)) (requests s)))"
    using inv unfolding issue_inv_def log_ok_def kind_inflight_def by (intro subseq_filter) simp
  then show "subseq (kind_inflight SearchRequest s) (map (\<lambda>(i, k, u). (i, k)) rs @ [(i, SearchRequest)])"
    using last by (simp add: kind_requests_proj kind_requests_def[symmetric])
  show "(i, SearchRequest) \<in> set (kind_inflight SearchRequest s)"
    using pend by (simp add: kind_inflight_def)
  have "distinct (map fst (kind_requests SearchRequest s))"
    using inv by (simp add: issue_inv_def log_ok_def kind_requests_def distinct_map_filter)
  then show "(i, SearchRequest) \<notin> set (map (\<lambda>(i, k, u). (i, k)) rs)"
    using last by force
qed
subsection \<open>Claims\<close>

text \<open>
  C8. Requests follow the stable query: in every run from the initial state, the search
  requests issued are, in order, one request for each value that the debounced term
  takes while mounted (the initial empty value at mount included, consecutive repeats
  collapsed), with the search or discover URL for that value; a value whose encoding
  throws issues none.
\<close>

theorem search_requests_follow_stable_query:
  "search_urls (app_run (initial_app key) es) =
   concat (map (search_url_of key)
     (remdups_adj (map debouncedSearchTerm (filter mounted (run_states (initial_app key) es)))))"
proof -
  have "app_inv (initial_app key)" "\<not> mounted (initial_app key)"
    "search_urls (initial_app key) = []" "api_key (initial_app key) = key"
    using app_inv_initial by (simp_all add: initial_app_def search_urls_def kind_requests_def)
  then show ?thesis using search_urls_run_unmounted[of "initial_app key" es] by simp
qed

text \<open>
  C9. The most recently issued search request is for the current stable query: in every
  run from the initial state that ends mounted, if the debounced term encodes, the last
  search URL in the request log is the one for that term.
\<close>

theorem latest_search_request_current:
  "mounted (app_run (initial_app key) es) \<Longrightarrow>
   search_url_of key (debouncedSearchTerm (app_run (initial_app key) es)) = [u] \<Longrightarrow>
   last (search_urls (app_run (initial_app key) es)) = u"
  using reachable_last_search_url[OF reachable_run[OF reachable.init]] by (simp add: api_key_run initial_app_def)
theorem latest_search_request_current_witness:
  "mounted (app_run (initial_app None) [Mount, Type [0x61], Tick 700, Type [0x61, 0x62], Tick 700]) \<and>
   search_url_of None (debouncedSearchTerm (app_run (initial_app None) [Mount, Type [0x61], Tick 700, Type [0x61, 0x62], Tick 700])) = [''https://api.themoviedb.org/3/search/movie?query=ab&api_key=undefined''] \<and>
   last (search_urls (app_run (initial_app None) [Mount, Type [0x61], Tick 700, Type [0x61, 0x62], Tick 700])) = ''https://api.themoviedb.org/3/search/movie?query=ab&api_key=undefined''"
proof -
  have m: "mounted (app_run (initial_app None) [Mount, Type [0x61], Tick 700, Type [0x61, 0x62], Tick 700])" by code_simp
  have d: "debouncedSearchTerm (app_run (initial_app None) [Mount, Type [0x61], Tick 700, Type [0x61, 0x62], Tick 700]) = [0x61, 0x62]" by code_simp
  have u: "search_url_of None (debouncedSearchTerm (app_run (initial_app None) [Mount, Type [0x61], Tick 700, Type [0x61, 0x62], Tick 700])) = [''https://api.themoviedb.org/3/search/movie?query=ab&api_key=undefined'']"
    unfolding d by code_simp
  show ?thesis using m u latest_search_request_current[OF m u] by blast
qed
end
