(* ===== verification/UriDecode.thy ===== *)
theory UriDecode
  imports UriEncode
begin

text \<open>
  What the server does with the query value that \<open>fetchMovies\<close> builds with
  \<open>encodeURIComponent\<close> (App.jsx line 43): percent-decode it to bytes, read the bytes
  as UTF-8 (the Decode operation of ECMA-262 behind \<open>decodeURIComponent\<close>, which
  rejects malformed, overlong and surrogate sequences), and write the code points
  back as UTF-16.  None of this is code of the repository; it is the reference against
  which the encoder is checked.  The main result is the round trip: whatever the
  user typed, if the encoder succeeds the server decodes exactly the typed code units.
  The decoder consumes one to four bytes per step, so it is a \<open>function\<close> whose
  termination is shown with the length of the input as measure.
\<close>

subsection \<open>UTF-8 decoding\<close>

text \<open>The number of continuation bytes announced by a lead byte, if it is one.\<close>

definition utf8_tail_len :: "nat \<Rightarrow> nat option" where
  "utf8_tail_len v =
     (if v < 0x80 then Some 0
      else if 0xC0 \<le> v \<and> v < 0xE0 then Some 1
      else if 0xE0 \<le> v \<and> v < 0xF0 then Some 2
      else if 0xF0 \<le> v \<and> v < 0xF8 then Some 3
      else None)"

definition is_continuation :: "8 word \<Rightarrow> bool" where
  "is_continuation b \<longleftrightarrow> 0x80 \<le> unat b \<and> unat b < 0xC0"

definition scalar_value :: "nat \<Rightarrow> bool" where
  "scalar_value cp \<longleftrightarrow> cp < 0x110000 \<and> \<not> (0xD800 \<le> cp \<and> cp < 0xE000)"

definition utf8_value :: "nat \<Rightarrow> 8 word \<Rightarrow> 8 word list \<Rightarrow> nat" where
  "utf8_value n b cs = foldl (\<lambda>a c. a * 64 + (unat c - 0x80)) (unat b - [0, 0xC0, 0xE0, 0xF0] ! n) cs"

function utf8_decode :: "8 word list \<Rightarrow> nat list option" where
  "utf8_decode [] = Some []"
| "utf8_decode (b # bs) =
     (case utf8_tail_len (unat b) of
        None \<Rightarrow> None
      | Some n \<Rightarrow>
          (let cp = utf8_value n b (take n bs) in
           if n \<le> length bs \<and> list_all is_continuation (take n bs) \<and> scalar_value cp
              \<and> [0, 0x80, 0x800, 0x10000] ! n \<le> cp
           then map_option (Cons cp) (utf8_decode (drop n bs))
           else None))"
  by pat_completeness auto
termination by (relation "measure length") auto

subsection \<open>UTF-16 encoding and the composite decoder\<close>

definition utf16_encode_cp :: "nat \<Rightarrow> 16 word list" where
  "utf16_encode_cp cp =
     (if cp < 0x10000 then [of_nat cp]
      else [of_nat (0xD800 + (cp - 0x10000) div 0x400), of_nat (0xDC00 + (cp - 0x10000) mod 0x400)])"

definition utf16_encode :: "nat list \<Rightarrow> js_string" where
  "utf16_encode cps = concat (map utf16_encode_cp cps)"

definition uri_decode :: "string \<Rightarrow> js_string option" where
  "uri_decode out = map_option utf16_encode (Option.bind (percent_decode out) utf8_decode)"

subsection \<open>UTF-8 round trip\<close>

lemma unat_of_nat_byte: "x < 256 \<Longrightarrow> unat (of_nat x :: 8 word) = x"
  by (simp add: unsigned_of_nat take_bit_nat_eq_self_iff)

lemma utf8_decode_seq:
  assumes "utf8_tail_len (unat b) = Some (length cs)" and "list_all is_continuation cs"
    and "scalar_value (utf8_value (length cs) b cs)"
    and "[0, 0x80, 0x800, 0x10000] ! length cs \<le> utf8_value (length cs) b cs"
  shows "utf8_decode (b # cs @ rest) = map_option (Cons (utf8_value (length cs) b cs)) (utf8_decode rest)"
  using assms by simp

lemma continuation_byte: "x < 64 \<Longrightarrow> unat (of_nat (0x80 + x) :: 8 word) = 0x80 + x \<and> is_continuation (of_nat (0x80 + x))"
  by (simp add: unat_of_nat_byte is_continuation_def del: of_nat_add)

text \<open>
  A code point written in base 64: its leading part \<open>n div 64 ^ k\<close> followed by its
  last \<open>k\<close> base-64 digits, most significant first, reads back as \<open>n\<close>.
\<close>

lemma sextets:
  "foldl (\<lambda>a x. a * 64 + x) ((n::nat) div 64 ^ k) (map (\<lambda>j. n div 64 ^ j mod 64) (rev [0..<k])) = n"
proof (induction k)
  case 0
  then show ?case by simp
next
  case (Suc k)
  have "n div 64 ^ Suc k * 64 + n div 64 ^ k mod 64 = n div 64 ^ k"
    by (simp add: div_mult2_eq mult.commute[of 64])
  with Suc.IH show ?case by simp
qed

text \<open>
  The multi-byte forms: a lead byte \<open>lead + n div 64 ^ k\<close> announcing \<open>k\<close>
  continuation bytes \<open>0x80 + digit\<close>.
\<close>

lemma utf8_decode_multi:
  assumes enc: "utf8_encode cp =
      of_nat (lead + cp div 64 ^ k) # map (\<lambda>j. of_nat (0x80 + cp div 64 ^ j mod 64)) (rev [0..<k])"
    and lead: "lead = [0, 0xC0, 0xE0, 0xF0] ! k" "lead + cp div 64 ^ k < 256"
      "utf8_tail_len (lead + cp div 64 ^ k) = Some k"
    and sv: "scalar_value cp" "[0, 0x80, 0x800, 0x10000] ! k \<le> cp"
  shows "utf8_decode (utf8_encode cp @ rest) = map_option (Cons cp) (utf8_decode rest)"
proof -
  define b where "b = (of_nat (lead + cp div 64 ^ k) :: 8 word)"
  define cs where "cs = map (\<lambda>j. of_nat (0x80 + cp div 64 ^ j mod 64) :: 8 word) (rev [0..<k])"
  have ub: "unat b = lead + cp div 64 ^ k" using lead(2) by (simp add: b_def unat_of_nat_byte del: of_nat_add)
  have uc: "map (\<lambda>c. unat c - 0x80) cs = map (\<lambda>j. cp div 64 ^ j mod 64) (rev [0..<k])"
    using continuation_byte by (simp add: cs_def)
  have l: "utf8_tail_len (unat b) = Some (length cs)" using ub lead(3) by (simp add: cs_def)
  have c: "list_all is_continuation cs" using continuation_byte by (simp add: cs_def list_all_iff)
  have "utf8_value (length cs) b cs = foldl (\<lambda>a x. a * 64 + x) (cp div 64 ^ k) (map (\<lambda>c. unat c - 0x80) cs)"
    using ub lead(1) by (simp add: utf8_value_def foldl_map cs_def)
  then have v: "utf8_value (length cs) b cs = cp" by (simp only: uc sextets)
  have "utf8_decode (b # cs @ rest) = map_option (Cons cp) (utf8_decode rest)"
    using utf8_decode_seq[OF l c] v sv by (simp add: cs_def)
  then show ?thesis by (simp add: enc b_def cs_def)
qed

lemma utf8_decode_encode_2:
  assumes "0x80 \<le> cp" "cp < 0x800" "scalar_value cp"
  shows "utf8_decode (utf8_encode cp @ rest) = map_option (Cons cp) (utf8_decode rest)"
proof (rule utf8_decode_multi[where lead = "0xC0" and k = 1])
  show "utf8_encode cp = of_nat (0xC0 + cp div 64 ^ 1) # map (\<lambda>j. of_nat (0x80 + cp div 64 ^ j mod 64)) (rev [0..<1])"
    using assms by (simp add: utf8_encode_def del: of_nat_add)
  show "0xC0 + cp div 64 ^ 1 < 256" "utf8_tail_len (0xC0 + cp div 64 ^ 1) = Some 1"
    using assms by (simp_all add: utf8_tail_len_def)
qed (use assms in simp_all)

lemma utf8_decode_encode_3:
  assumes "0x800 \<le> cp" "cp < 0x10000" "scalar_value cp"
  shows "utf8_decode (utf8_encode cp @ rest) = map_option (Cons cp) (utf8_decode rest)"
proof (rule utf8_decode_multi[where lead = "0xE0" and k = 2])
  show "utf8_encode cp = of_nat (0xE0 + cp div 64 ^ 2) # map (\<lambda>j. of_nat (0x80 + cp div 64 ^ j mod 64)) (rev [0..<2])"
    using assms by (simp add: utf8_encode_def upt_rec del: of_nat_add)
  show "0xE0 + cp div 64 ^ 2 < 256" "utf8_tail_len (0xE0 + cp div 64 ^ 2) = Some 2"
    using assms by (simp_all add: utf8_tail_len_def)
qed (use assms in simp_all)

lemma utf8_decode_encode_4:
  assumes "0x10000 \<le> cp" "scalar_value cp"
  shows "utf8_decode (utf8_encode cp @ rest) = map_option (Cons cp) (utf8_decode rest)"
proof (rule utf8_decode_multi[where lead = "0xF0" and k = 3])
  have "cp div 262144 < 8" using assms by (simp add: scalar_value_def)
  then show "0xF0 + cp div 64 ^ 3 < 256" "utf8_tail_len (0xF0 + cp div 64 ^ 3) = Some 3"
    by (simp_all add: utf8_tail_len_def)
  show "utf8_encode cp = of_nat (0xF0 + cp div 64 ^ 3) # map (\<lambda>j. of_nat (0x80 + cp div 64 ^ j mod 64)) (rev [0..<3])"
    using assms by (simp add: utf8_encode_def upt_rec del: of_nat_add)
qed (use assms in simp_all)

lemma utf8_decode_encode:
  assumes "scalar_value cp"
  shows "utf8_decode (utf8_encode cp @ rest) = map_option (Cons cp) (utf8_decode rest)"
proof -
  consider "cp < 0x80" | "0x80 \<le> cp" "cp < 0x800" | "0x800 \<le> cp" "cp < 0x10000" | "0x10000 \<le> cp"
    by linarith
  then show ?thesis
  proof cases
    case 1
    with assms show ?thesis
      by (simp add: utf8_encode_def unat_of_nat_byte utf8_tail_len_def utf8_value_def)
  qed (use assms utf8_decode_encode_2 utf8_decode_encode_3 utf8_decode_encode_4 in blast)+
qed

lemma utf8_decode_encode_all:
  "list_all scalar_value cps \<Longrightarrow> utf8_decode (concat (map utf8_encode cps)) = Some cps"
  by (induction cps) (simp_all add: utf8_decode_encode)

subsection \<open>UTF-16 round trip\<close>

lemma surrogate_ranges:
  assumes "is_high_surrogate c" and "is_low_surrogate d"
  obtains x y where "unat c = 0xD800 + x" "unat d = 0xDC00 + y" "x < 0x400" "y < 0x400"
proof -
  have "0xD800 \<le> unat c" "unat c < 0xDC00" "0xDC00 \<le> unat d" "unat d < 0xE000"
    using assms by (simp_all add: is_high_surrogate_def is_low_surrogate_def word_le_nat_alt)
  then show ?thesis
    by (intro that[of "unat c - 0xD800" "unat d - 0xDC00"]) simp_all
qed

lemma surrogate_pair_parts:
  assumes "is_high_surrogate c" and "is_low_surrogate d"
  shows "(surrogate_pair c d - 0x10000) div 0x400 = unat c - 0xD800"
    "(surrogate_pair c d - 0x10000) mod 0x400 = unat d - 0xDC00"
proof -
  obtain x y where xy: "unat c = 0xD800 + x" "unat d = 0xDC00 + y" "x < 0x400" "y < 0x400"
    using surrogate_ranges[OF assms] .
  then have sp: "surrogate_pair c d - 0x10000 = x * 0x400 + y" by (simp add: surrogate_pair_def)
  show "(surrogate_pair c d - 0x10000) div 0x400 = unat c - 0xD800"
    using xy(1,4) unfolding sp by simp
  show "(surrogate_pair c d - 0x10000) mod 0x400 = unat d - 0xDC00"
    using xy(2,4) unfolding sp by simp
qed

lemma non_surrogate_scalar:
  "\<not> is_low_surrogate c \<Longrightarrow> \<not> is_high_surrogate c \<Longrightarrow> scalar_value (unat c)"
  using unsigned_less[of c, where ?'a = nat]
  by (auto simp: scalar_value_def is_low_surrogate_def is_high_surrogate_def word_le_nat_alt)

lemma surrogate_pair_scalar:
  "is_high_surrogate c \<Longrightarrow> is_low_surrogate d \<Longrightarrow> scalar_value (surrogate_pair c d)"
  by (erule surrogate_ranges) (auto simp: scalar_value_def surrogate_pair_def)

lemma utf16_decode_scalar: "utf16_decode s = Some cps \<Longrightarrow> list_all scalar_value cps"
  by (induction s arbitrary: cps rule: utf16_decode.induct)
     (auto simp: non_surrogate_scalar surrogate_pair_scalar split: if_splits list.splits)

lemma utf16_encode_cp_single:
  "\<not> is_low_surrogate c \<Longrightarrow> \<not> is_high_surrogate c \<Longrightarrow> utf16_encode_cp (unat c) = [c]"
  using unsigned_less[of c, where ?'a = nat] by (simp add: utf16_encode_cp_def)

lemma utf16_encode_cp_pair:
  assumes "is_high_surrogate c" and "is_low_surrogate d"
  shows "utf16_encode_cp (surrogate_pair c d) = [c, d]"
proof -
  obtain x y where xy: "unat c = 0xD800 + x" "unat d = 0xDC00 + y" "x < 0x400" "y < 0x400"
    using surrogate_ranges[OF assms] .
  then have "0xD800 + (unat c - 0xD800) = unat c" "0xDC00 + (unat d - 0xDC00) = unat d" by simp_all
  then show ?thesis using surrogate_pair_parts[OF assms] surrogate_pair_ge[of c d]
    by (simp add: utf16_encode_cp_def del: of_nat_add)
qed

lemma utf16_encode_decode: "utf16_decode s = Some cps \<Longrightarrow> utf16_encode cps = s"
  by (induction s arbitrary: cps rule: utf16_decode.induct)
     (auto simp: utf16_encode_def utf16_encode_cp_single utf16_encode_cp_pair split: if_splits list.splits)

subsection \<open>The server reads the term as typed\<close>

text \<open>
  C31. Whatever the search term, when \<open>encodeURIComponent\<close> succeeds the server's
  decoding of the query value (percent-decoding, UTF-8, UTF-16) gives back exactly the
  code units the user typed.
\<close>

theorem uri_decode_encode:
  "encode_uri_component s = Inr out \<Longrightarrow> uri_decode out = Some s"
proof -
  assume "encode_uri_component s = Inr out"
  then obtain cps where d: "utf16_decode s = Some cps" and o: "out = concat (map encode_code_point cps)"
    using encode_uri_component_Inr_decode by blast
  have "percent_decode out = Some (concat (map utf8_encode cps))"
    unfolding o by (rule percent_decode_code_points)
  moreover have "utf8_decode (concat (map utf8_encode cps)) = Some cps"
    using utf16_decode_scalar[OF d] by (rule utf8_decode_encode_all)
  ultimately show ?thesis
    using utf16_encode_decode[OF d] by (simp add: uri_decode_def)
qed


theorem uri_decode_encode_witness:
  "encode_uri_component [0x61, 0x20, 0xD83C, 0xDFAC] = Inr ''a%20%F0%9F%8E%AC'' \<and>
   uri_decode ''a%20%F0%9F%8E%AC'' = Some [0x61, 0x20, 0xD83C, 0xDFAC]"
proof -
  have e: "encode_uri_component [0x61, 0x20, 0xD83C, 0xDFAC] = Inr ''a%20%F0%9F%8E%AC''"
    by (simp add: uri_unreserved_def is_high_surrogate_def is_low_surrogate_def surrogate_pair_def
        utf8_encode_def percent_all_def percent_byte_def hex_digit_def) code_simp
  from e uri_decode_encode[OF e] show ?thesis by (rule conjI)
qed

end
