(* ===== verification/Spec2Isabelle.thy ===== *)
theory Spec2Isabelle
  imports Typing Races Debounce Requests UriDecode
begin

text \<open>
  \<^bold>\<open>MovieSearchApp: a verification model of \<open>src/src/App.jsx\<close>.\<close>

  \<^bold>\<open>The program.\<close>  One React component, \<open>App\<close>.  Keystrokes set
  \<open>searchTerm\<close>; \<open>useDebounce\<close> (react-use, 700 ms) copies it into
  \<open>debouncedSearchTerm\<close> after a quiet period; an effect on that value calls
  \<open>fetchMovies\<close>, which selects the search or discover endpoint and awaits
  \<open>fetchTMDB\<close>; a second effect calls \<open>loadTrendingMovies\<close> once on mount.  Each
  orchestrator owns three state cells (list, error message, loading flag) that the JSX
  reads as spinner, error text or list.  The two streams share nothing but the fetch
  helper; requests settle in any order and nothing cancels or orders them.

  \<^bold>\<open>Theories and what they model.\<close>
  \<^item> \<open>Prelude\<close>: the JavaScript string type (UTF-16 code units as \<open>16 word\<close>), the
    exceptions that reach the \<open>catch\<close> blocks (\<open>js_error\<close>), \<open>sum_bind\<close> for a
    \<open>try\<close> block's sequencing, and list lemmas shared by the proofs.
  \<^item> \<open>Json\<close>: response bodies as \<open>json\<close>, JavaScript truthiness, the property read
    \<open>data.results\<close> (throws on \<open>null\<close>) and \<open>data.results || []\<close>
    (\<open>results_of\<close>, lines 47 and 63).
  \<^item> \<open>UriEncode\<close>: \<open>encodeURIComponent\<close> (line 43), a runtime built-in modelled
    from ECMA-262: escapes, UTF-8, \<open>URIError\<close> on an unpaired surrogate.
  \<^item> \<open>UriDecode\<close>: the server's side of the query value (percent-decoding, a strict
    UTF-8 decoder, UTF-16 encoding), the reference for the encoder's round trip.
  \<^item> \<open>Catalog\<close>: \<open>fetchTMDB\<close> (lines 7--18) as the URL it requests
    (\<open>tmdb_url\<close>) and the classification of a settled request
    (\<open>fetchTMDB_result\<close>: network, HTTP and parse errors); the endpoint choice of
    \<open>fetchMovies\<close> (\<open>search_endpoint\<close>, lines 42--44); a query-string reader
    \<open>url_params\<close> used to state what the server receives.
  \<^item> \<open>Orchestrator\<close>: \<open>fetchMovies\<close> (lines 36--54) and \<open>loadTrendingMovies\<close>
    (lines 57--70), each split at its \<open>await\<close> into a \<open>_begin\<close> and an \<open>_end\<close>
    half over a \<open>stream\<close> record, returning \<open>effect\<close>s (a request handed to
    \<open>fetch\<close>, a \<open>console.error\<close> line); the spec's \<open>fetch_state\<close> with the
    abstraction \<open>stream_abs\<close> and the transition \<open>fs_settle\<close>.
  \<^item> \<open>App\<close>: the whole component as a state machine: \<open>app_state\<close> holds the
    \<open>useState\<close> cells and what the browser keeps (clock, the debounce deadline,
    pending requests, the log of requested URLs, the console); events \<open>Mount\<close>,
    \<open>Type\<close>, \<open>Tick\<close>, \<open>Resolve\<close> drive \<open>app_step\<close>; \<open>reachable\<close> is the
    inductive set of states any event sequence reaches; \<open>app_inv\<close> its invariant.
  \<^item> \<open>View\<close>: the JSX (lines 80--140): what each section shows
    (\<open>render_trending\<close>, \<open>render_all_movies\<close>: spinner, error text, empty-state
    text or cards, or the exception rendering throws) and the page
    (\<open>render_page\<close>: the search box value and both sections, in evaluation order).
  \<^item> \<open>Typing\<close>: the response shape of spec section 6 (\<open>conforming\<close>), the typing
    of a state (\<open>typed_state\<close>), preservation along runs and progress of rendering.
  \<^item> \<open>Liveness\<close>: the invariant of the debounce timer (\<open>debounce_inv\<close>), what
    the user eventually sees when the environment acts (a quiet period, answers), and the
    settling loop \<open>settle_all\<close> that answers every pending request in issue order.
  \<^item> \<open>Requests\<close>: the log of search requests over a whole run (\<open>search_urls\<close>),
    compared with the values the stable query takes along the run (\<open>run_states\<close>).
  \<^item> \<open>Debounce\<close>: the Debounce Scheduler of spec section 4.2 as an abstract
    component (\<open>scheduler\<close>, \<open>on_input_change\<close>, \<open>advance\<close>) and the
    abstraction \<open>sched_abs\<close> of the application's debounce state.
  \<^item> \<open>Races\<close>: ordering and interleaving: search requests settling in any order
    (\<open>last_writer\<close>), and the part of the state that responses cannot influence
    (\<open>control_view\<close>: the debounce state, the clock and the request log).
  \<^item> this theory: the properties that span the components, and test data.

  \<^bold>\<open>What is proved.\<close>
  \<^item> Over every reachable state, by rule induction with \<open>app_inv\<close>: the trending
    list is requested exactly once (\<open>trending_fetched_once\<close>); the search spinner is
    off whenever no search request is pending (\<open>search_spinner_cleared\<close>); the
    trending stream refines the spec's FetchState (\<open>trending_refines_fetch_state\<close>);
    the two streams are isolated both ways (\<open>trending_unaffected_by_search\<close>,
    \<open>search_unaffected_by_trending\<close>).
  \<^item> Debounce: a burst of keystrokes is held until 700 ms of quiet and then settles on
    the last value (\<open>debounce_burst\<close>); over every run, the search requests are
    exactly one per value the stable query takes after mounting, in order, for the URL of
    that value (\<open>Requests.search_requests_follow_stable_query\<close>, spec section 4.3:
    a request is issued when and only when the stable query changes), so the last one
    issued is for the current stable query (\<open>Requests.latest_search_request_current\<close>);
    after mounting, every
    event moves the debounce state as the spec's scheduler prescribes
    (\<open>Debounce.debounce_refines_scheduler\<close>); from every reachable
    state 700 ms of quiet bring the debounced term to the typed one
    (\<open>Liveness.debounce_settles\<close>).
  \<^item> Liveness of the spinners: once every pending request is answered, with any
    outcomes, nothing is loading (\<open>Liveness.answered_not_loading\<close>).
  \<^item> Typing: along every run whose responses conform to spec section 6 both lists stay
    arrays of movie objects (\<open>Typing.conforming_runs_typed\<close>) and the page renders
    without throwing (\<open>Typing.conforming_runs_render\<close>); without the hypothesis a
    truthy non-array \<open>results\<close> settling any pending search request is stored and
    makes rendering throw (\<open>results_not_array_crashes_render\<close>).
  \<^item> Error paths: HTTP errors end in Failure and are logged
    (\<open>http_error_fails_search\<close>, \<open>settle_failure_logged\<close>); a published term
    with an unpaired surrogate makes \<open>encodeURIComponent\<close> throw inside
    \<open>fetchMovies\<close>, which issues no request, fails the stream and logs the
    \<open>URIError\<close> (\<open>unpaired_surrogate_fails_search\<close>); the search and discover
    URLs carry exactly the intended parameters (\<open>Catalog.search_url_params\<close>,
    \<open>Catalog.discover_url_params\<close>); an absent or falsy \<open>results\<close> gives the empty
    list (\<open>Orchestrator.fetchMovies_end_falsy_results\<close>); one search request on its
    own refines FetchState (\<open>Orchestrator.search_refines_fetch_state\<close>).
  \<^item> View: the sections show exactly the FetchState tag (\<open>View.view_shows_fetch_state\<close>),
    at most five ranked trending cards (\<open>View.trending_top_five\<close>), the placeholder
    exactly for a missing or falsy poster path (\<open>View.poster_placeholder_iff\<close>); they
    cannot throw on arrays without nulls (\<open>View.render_total_without_nulls\<close>); the
    All Movies section has no empty state (\<open>View.all_movies_no_empty_state\<close>).  The
    test \<open>trendingMovies.length > 0\<close> on a stored object reads its \<open>length\<close>
    property and compares it as ECMA-262 does (\<open>js_positive\<close>, with
    \<open>StringToNumber\<close> for strings).
  \<^item> Encoder: whatever \<open>encodeURIComponent\<close> produces for the search term is decoded
    by the server, through an independent percent and UTF-8 decoder, to exactly the typed
    code units (\<open>UriDecode.uri_decode_encode\<close>).  The lemmas of \<open>UriEncode\<close> on the
    built-in (its failure exactly on ill-formed UTF-16, its equality with a
    decode-then-escape reference) serve that proof and the error path above.
  \<^item> Ordering: whatever the order in which pending search requests settle, the list is
    the last successful writer's, the error text is set if any failed and never cleared by
    a later success, and the spinner is off (\<open>Races.last_resolved_wins\<close>, spec
    section 5); no response, its timing or its order can change the debounce state or the
    requests issued (\<open>Races.responses_do_not_steer\<close>).  The request log keeps
    issue order (\<open>Requests.issue_inv\<close>, by rule induction: fresh distinct ids, the
    pending requests a subsequence of the log), so when the request for the current
    query is still pending and the network answers in issue order with successes, the
    list shows that request's results (\<open>fifo_current_query_wins\<close>): the current
    query wins only through the order of the network; in any other order
    \<open>Races.last_resolved_wins\<close> gives the last writer, so a stale response overwrites
    the current results and a stale failure leaves the error showing.  The loading flag is
    shared as well: settling one of two pending searches turns the spinner off while the
    other is pending (\<open>spinner_off_while_pending\<close>).

  \<^bold>\<open>Bounds and termination.\<close>  Every function of the model is total: by
  structural recursion, except the UTF-8 decoder of \<open>UriDecode\<close>, which consumes one
  to four bytes per step and terminates by the measure \<open>length\<close>, and the settling
  loop \<open>settle_all\<close> of \<open>Liveness\<close>.  That loop is not code of the application:
  it stands for a network that answers every pending request in issue order, and is
  used by \<open>fifo_current_query_wins\<close>; its recursion is not structural and its domain
  is proved by induction on the length of the pending list.  No fuel is needed:
  the application is a step function driven by a finite list of events.  The only
  constant bound is the debounce delay \<open>DEBOUNCE_MS = 700\<close>.  Code points are
  natural numbers below \<open>0x110000\<close>; UTF-16 code units and bytes are \<open>16 word\<close> and
  \<open>8 word\<close>.  JSON numbers are integers (only truthiness and identity of values are
  observed).

  \<^bold>\<open>Simplifications.\<close>  The two awaits of \<open>fetchTMDB\<close> are one step
  (nothing observable happens between them); the effect triggered by a fired timer runs
  before the next event; the component mounts once (no development-mode double effects).

  \<^bold>\<open>Not modelled.\<close>  The static markup of the JSX (header, hero image, headings,
  class names), which does not depend on state; the \<open>Search\<close>, \<open>Spinner\<close> and
  \<open>MovieCard\<close> components (imported from \<open>./components\<close>, not among the
  sources); the configuration loader beyond the text of the key.

  \<^bold>\<open>Completeness.\<close>  Every line of \<open>src/src/App.jsx\<close> that computes is
  modelled; the lines left out are imports, comments and blank lines.  What remains
  outside the model is listed under \<^emph>\<open>Not modelled\<close> and is not among the sources.
\<close>

section \<open>Test data\<close>

definition ok_results :: "json list \<Rightarrow> fetch_outcome" where
  "ok_results xs = Response 200 (Some (JObj [(''results'', JArr xs)]))"

definition movie_a :: json where
  "movie_a = JObj [(''id'', JNum 1), (''title'', JStr ''A''), (''poster_path'', JNull)]"

text \<open>Start, let both startup requests succeed, then type \<open>a\<close> and \<open>ab\<close>, each settling.\<close>

definition two_queries :: "event list" where
  "two_queries = [Mount, Resolve 0 (ok_results []), Resolve 1 (ok_results []),
     Type [0x61], Tick 700, Type [0x61, 0x62], Tick 700]"

section \<open>Properties that span the components\<close>

text \<open>
  C1. The trending list is fetched exactly once per mounted application: in every
  reachable state, the log of requests holds one trending request after mounting and
  none before, whatever the user types and however the requests settle.
\<close>

theorem trending_fetched_once:
  "reachable s \<Longrightarrow> length (kind_requests TrendingRequest s) = (if mounted s then 1 else 0)"
  by (drule reachable_app_inv) (simp add: app_inv_def)

theorem trending_fetched_once_witness:
  "reachable (app_run (initial_app (Some ''k'')) [Mount, Type [0x61], Tick 700, Mount]) \<and>
   length (kind_requests TrendingRequest (app_run (initial_app (Some ''k'')) [Mount, Type [0x61], Tick 700, Mount])) = 1"
proof -
  let ?s = "app_run (initial_app (Some ''k'')) [Mount, Type [0x61], Tick 700, Mount]"
  have r: "reachable ?s" by (rule reachable_run[OF reachable.init])
  have m: "mounted ?s" by code_simp
  from trending_fetched_once[OF r] m r show ?thesis by (simp only: if_True simp_thms)
qed

text \<open>
  C2. The search spinner is never stuck: in every reachable state in which no search
  request is pending, the search loading flag is off (every exit path of
  \<open>fetchMovies\<close>, the synchronous \<open>URIError\<close> one included, clears it).
\<close>

theorem search_spinner_cleared:
  "reachable s \<Longrightarrow> kind_inflight SearchRequest s = [] \<Longrightarrow> \<not> loading (movies s)"
  by (drule reachable_app_inv) (auto simp: app_inv_def)

theorem search_spinner_cleared_witness:
  "reachable (app_run (initial_app None) [Mount, Resolve 0 (Response 503 None)]) \<and>
   kind_inflight SearchRequest (app_run (initial_app None) [Mount, Resolve 0 (Response 503 None)]) = [] \<and>
   \<not> loading (movies (app_run (initial_app None) [Mount, Resolve 0 (Response 503 None)]))"
proof -
  let ?s = "app_run (initial_app None) [Mount, Resolve 0 (Response 503 None)]"
  have r: "reachable ?s" by (rule reachable_run[OF reachable.init])
  have k: "kind_inflight SearchRequest ?s = []" by code_simp
  from search_spinner_cleared[OF r k] r k show ?thesis by (simp only: simp_thms)
qed

text \<open>
  C3. The trending stream implements the spec's FetchState: while its request is
  pending the stream reads as Loading, and when it settles it reads as Success of the
  results (an absent or falsy \<open>results\<close> field as the empty array) or as Failure
  with the fixed message, as the abstract transition \<open>fs_settle\<close> says.
\<close>

theorem trending_refines_fetch_state:
  assumes "reachable s" and "map_of (inflight s) i = Some TrendingRequest"
  shows "stream_abs (trending s) = Loading \<and>
    stream_abs (trending (app_step s (Resolve i r))) = fs_settle TRENDING_ERROR (awaited_results r)"
proof -
  have inv: "app_inv s" using assms(1) by (rule reachable_app_inv)
  have "kind_inflight TrendingRequest s \<noteq> []" using assms(2) by (rule inflight_kind_mem)
  with inv have ld: "loading (trending s)" and e: "err (trending s) = Some []"
    by (auto simp: app_inv_def stream_inv_def)
  have "stream_abs (trending (app_step s (Resolve i r))) = fs_settle TRENDING_ERROR (awaited_results r)"
    using assms(2) e messages_nonempty(2)
    by (simp add: app_resolve_trending loadTrendingMovies_end_def fetch_settle_abs)
  with ld show ?thesis by (simp add: stream_abs_def)
qed

theorem trending_refines_fetch_state_witness:
  "reachable (app_run (initial_app None) [Mount]) \<and>
   map_of (inflight (app_run (initial_app None) [Mount])) 1 = Some TrendingRequest \<and>
   stream_abs (trending (app_step (app_run (initial_app None) [Mount]) (Resolve 1 (ok_results [movie_a]))))
     = Success (JArr [movie_a])"
proof -
  let ?s = "app_run (initial_app None) [Mount]"
  have r: "reachable ?s" by (rule reachable_run[OF reachable.init])
  have m: "map_of (inflight ?s) 1 = Some TrendingRequest" by code_simp
  have a: "fs_settle TRENDING_ERROR (awaited_results (ok_results [movie_a])) = Success (JArr [movie_a])"
    by (simp add: fs_settle_def awaited_results_def ok_results_def fetchTMDB_result_def
        response_ok_def results_of_def or_empty_def)
  from trending_refines_fetch_state[OF r m, of "ok_results [movie_a]"] r m a show ?thesis by simp
qed

text \<open>
  C4. The search stream never touches the trending state: every event other than the
  mount and the settling of the trending request (keystrokes, timer ticks, search
  requests settling with any outcome, failures included) leaves the trending stream
  unchanged.
\<close>

theorem trending_unaffected_by_search:
  assumes "e \<noteq> Mount" and "\<forall>i r. e = Resolve i r \<longrightarrow> map_of (inflight s) i \<noteq> Some TrendingRequest"
  shows "trending (app_step s e) = trending s"
proof (cases e)
  case Mount
  with assms(1) show ?thesis by simp
next
  case (Type v)
  then show ?thesis by (simp add: app_type_def)
next
  case (Tick d)
  then show ?thesis by simp
next
  case (Resolve i r)
  with assms(2) have "map_of (inflight s) i \<noteq> Some TrendingRequest" by simp
  then consider "map_of (inflight s) i = None" | "map_of (inflight s) i = Some SearchRequest"
    by (metis request_kind.exhaust option.exhaust)
  then show ?thesis
    by cases (simp_all add: Resolve app_resolve_none app_resolve_search)
qed

theorem trending_unaffected_by_search_witness:
  "map_of (inflight (app_run (initial_app None) [Mount])) 0 = Some SearchRequest \<and>
   trending (app_step (app_run (initial_app None) [Mount]) (Resolve 0 (Response 404 None)))
     = trending (app_run (initial_app None) [Mount])"
proof -
  let ?s = "app_run (initial_app None) [Mount]"
  have h: "map_of (inflight ?s) 0 = Some SearchRequest" by code_simp
  have h2: "\<forall>i r. Resolve 0 (Response 404 None) = Resolve i r \<longrightarrow> map_of (inflight ?s) i \<noteq> Some TrendingRequest"
    using h by simp
  show ?thesis using trending_unaffected_by_search[OF _ h2] h by simp
qed

text \<open>
  C5. The trending stream never touches the search state: when the trending request
  settles, with any outcome, the search list, message and flag, the debounced term and
  the pending search requests are unchanged.
\<close>

theorem search_unaffected_by_trending:
  assumes "map_of (inflight s) i = Some TrendingRequest"
  shows "movies (app_step s (Resolve i r)) = movies s \<and>
    debouncedSearchTerm (app_step s (Resolve i r)) = debouncedSearchTerm s \<and>
    kind_inflight SearchRequest (app_step s (Resolve i r)) = kind_inflight SearchRequest s"
proof -
  have "filter (\<lambda>(i, k'). k' = SearchRequest) (remove1 (i, TrendingRequest) (inflight s))
      = filter (\<lambda>(i, k'). k' = SearchRequest) (inflight s)"
    by (rule filter_remove1_other) simp
  with assms show ?thesis by (simp add: app_resolve_trending kind_inflight_def)
qed

theorem search_unaffected_by_trending_witness:
  "map_of (inflight (app_run (initial_app None) [Mount])) 1 = Some TrendingRequest \<and>
   movies (app_step (app_run (initial_app None) [Mount]) (Resolve 1 Rejected)) = movies (app_run (initial_app None) [Mount])"
proof -
  have h: "map_of (inflight (app_run (initial_app None) [Mount])) 1 = Some TrendingRequest" by code_simp
  show ?thesis using search_unaffected_by_trending[OF h] h by simp
qed

text \<open>
  C6. The debounce scheduler: a burst of keystrokes, each changing the term and each
  followed by less than 700 ms of quiet, changes neither the debounced term nor the
  request log, and leaves the timer pending; 700 ms after the last keystroke the
  debounced term is the last value typed, with at most one request issued.
\<close>

theorem debounce_burst:
  assumes "mounted s" and "ks \<noteq> []" and "\<forall>p\<in>set ks. snd p < DEBOUNCE_MS"
    and "keystrokes_change (searchTerm s) (map fst ks)"
  shows "debouncedSearchTerm (app_run s (burst ks)) = debouncedSearchTerm s \<and>
    requests (app_run s (burst ks)) = requests s \<and>
    (\<exists>t. debounce_deadline (app_run s (burst ks)) = Some t \<and> clock (app_run s (burst ks)) < t) \<and>
    debouncedSearchTerm (app_step (app_run s (burst ks)) (Tick DEBOUNCE_MS)) = fst (last ks) \<and>
    length (requests (app_step (app_run s (burst ks)) (Tick DEBOUNCE_MS))) \<le> Suc (length (requests s))"
proof -
  obtain c where run: "app_run s (burst ks) =
      s\<lparr>searchTerm := fst (last ks), debounce_deadline := Some (c + DEBOUNCE_MS), clock := c + snd (last ks)\<rparr>"
    using burst_run[OF assms] by blast
  have lt: "snd (last ks) < DEBOUNCE_MS" using assms(2,3) by simp
  let ?s = "s\<lparr>searchTerm := fst (last ks), debounce_deadline := Some (c + DEBOUNCE_MS), clock := c + snd (last ks)\<rparr>"
  let ?f = "?s\<lparr>clock := clock ?s + DEBOUNCE_MS\<rparr>"
  have tick: "app_step ?s (Tick DEBOUNCE_MS) = debounce_fire ?f"
    by (simp add: app_tick_def Let_def)
  have deb: "debouncedSearchTerm (debounce_fire ?f) = fst (last ks)"
    by (simp add: debounce_fire_def Let_def run_fetchMovies_def split: prod.split)
  have req: "length (requests (debounce_fire ?f)) \<le> Suc (length (requests s))"
    using requests_debounce_fire[of ?f] by simp
  show ?thesis using run lt tick deb req by simp
qed

theorem debounce_burst_witness:
  "debouncedSearchTerm (app_step (app_run (app_run (initial_app None) [Mount]) (burst [([0x61], 100), ([0x61, 0x62], 650)])) (Tick DEBOUNCE_MS)) = [0x61, 0x62]"
proof -
  let ?s = "app_run (initial_app None) [Mount]"
  have m: "mounted ?s" by code_simp
  have c: "keystrokes_change (searchTerm ?s) (map fst [([0x61], 100), ([0x61, 0x62], 650)])" by code_simp
  have b: "\<forall>p\<in>set [([0x61::16 word], 100::nat), ([0x61, 0x62], 650)]. snd p < DEBOUNCE_MS"
    by (simp add: DEBOUNCE_MS_def)
  from debounce_burst[OF m _ b c] show ?thesis by simp
qed

text \<open>
  C10. A search request answered with a status outside 200--299 (a 404, say) leaves the
  search stream in Failure with the fixed, non-empty message, not Loading, and logs the
  underlying error.
\<close>

theorem http_error_fails_search:
  assumes "map_of (inflight s) i = Some SearchRequest" and "status < 200 \<or> 299 < status"
  shows "stream_abs (movies (app_step s (Resolve i (Response status body)))) = Failure SEARCH_ERROR \<and>
    SEARCH_ERROR \<noteq> [] \<and>
    console (app_step s (Resolve i (Response status body))) = console s @ [(SEARCH_LOG, HttpError)]"
proof -
  have "\<not> response_ok status" using assms(2) by (auto simp: response_ok_def)
  then have "awaited_results (Response status body) = Inl HttpError"
    by (simp add: awaited_results_def fetchTMDB_result_not_ok)
  with assms(1) messages_nonempty(1) show ?thesis
    by (simp add: app_resolve_search fetchMovies_end_def fetch_settle_def fetch_catch_def stream_abs_def)
qed

theorem http_error_fails_search_witness:
  "map_of (inflight (app_run (initial_app None) [Mount])) 0 = Some SearchRequest \<and>
   stream_abs (movies (app_step (app_run (initial_app None) [Mount]) (Resolve 0 (Response 404 None)))) = Failure SEARCH_ERROR"
proof -
  have h: "map_of (inflight (app_run (initial_app None) [Mount])) 0 = Some SearchRequest" by code_simp
  have st: "(404::int) < 200 \<or> 299 < (404::int)" by simp
  show ?thesis using http_error_fails_search[OF h st] h by simp
qed

text \<open>
  C11. A search term that is not well-formed UTF-16 (an unpaired surrogate) fails the
  search without a request: when the debounce timer publishes it, \<open>encodeURIComponent\<close>
  throws \<open>URIError\<close> inside the \<open>try\<close> of \<open>fetchMovies\<close>, which logs it,
  shows the fixed message and clears the spinner at once.
\<close>

theorem unpaired_surrogate_fails_search:
  assumes "debounce_deadline s = Some t" and "t \<le> clock s + d"
    and "searchTerm s \<noteq> debouncedSearchTerm s" and "utf16_decode (searchTerm s) = None"
  shows "debouncedSearchTerm (app_step s (Tick d)) = searchTerm s \<and>
    requests (app_step s (Tick d)) = requests s \<and> inflight (app_step s (Tick d)) = inflight s \<and>
    stream_abs (movies (app_step s (Tick d))) = Failure SEARCH_ERROR \<and>
    console (app_step s (Tick d)) = console s @ [(SEARCH_LOG, URIError)]"
proof -
  have ne: "searchTerm s \<noteq> []" using assms(4) by auto
  have "encode_uri_component (searchTerm s) = Inl URIError"
    using assms(4) encode_uri_component_Inl_iff[of "searchTerm s" URIError]
    by (cases "encode_uri_component (searchTerm s)") (auto dest: encode_uri_component_Inr_decode)
  then have e: "search_endpoint (searchTerm s) = Inl URIError"
    using ne by (simp add: search_endpoint_def)
  have t: "app_tick d s = debounce_fire (s\<lparr>clock := clock s + d\<rparr>)"
    using assms(1,2) by (simp add: app_tick_def Let_def)
  show ?thesis
    using assms(3) e
    by (simp add: t debounce_fire_def Let_def run_fetchMovies_Inl fetch_catch_def fetch_start_def
        stream_abs_def SEARCH_ERROR_def)
qed

theorem unpaired_surrogate_fails_search_witness:
  "debounce_deadline (app_run (initial_app None) [Mount, Type [0xD800]]) = Some 700 \<and>
   searchTerm (app_run (initial_app None) [Mount, Type [0xD800]]) \<noteq>
     debouncedSearchTerm (app_run (initial_app None) [Mount, Type [0xD800]]) \<and>
   console (app_step (app_run (initial_app None) [Mount, Type [0xD800]]) (Tick 700)) = [(SEARCH_LOG, URIError)]"
proof -
  let ?s = "app_run (initial_app None) [Mount, Type [0xD800]]"
  have s: "?s = app_type [0xD800] (app_mount (initial_app None))" by simp
  have dl: "debounce_deadline ?s = Some 700" and ck: "clock ?s = 0"
    and st: "searchTerm ?s = [0xD800]" and db: "debouncedSearchTerm ?s = []" and co: "console ?s = []"
    unfolding s
    by (simp_all add: app_type_def app_mount_def initial_app_def DEBOUNCE_MS_def run_loadTrendingMovies_eq
        run_fetchMovies_Inr search_endpoint_def)
  have u: "utf16_decode (searchTerm ?s) = None"
    by (simp only: st) (simp add: is_low_surrogate_def is_high_surrogate_def)
  have "console (app_step ?s (Tick 700)) = console ?s @ [(SEARCH_LOG, URIError)]"
    using unpaired_surrogate_fails_search[OF dl _ _ u] ck st db by simp
  with dl st db co show ?thesis by simp
qed

text \<open>
  C25. Every failure of a settling request is observable in the log: the
  \<open>console.error\<close> log grows by exactly the orchestrator's label and the underlying
  error.
\<close>

theorem settle_failure_logged:
  assumes "map_of (inflight s) i = Some k" and "awaited_results r = Inl e"
  shows "console (app_step s (Resolve i r)) =
    console s @ [(case k of SearchRequest \<Rightarrow> SEARCH_LOG | TrendingRequest \<Rightarrow> TRENDING_LOG, e)]"
  using assms by (cases k) (simp_all add: app_resolve_search app_resolve_trending)

theorem settle_failure_logged_witness:
  "map_of (inflight (app_run (initial_app None) [Mount])) 1 = Some TrendingRequest \<and>
   console (app_step (app_run (initial_app None) [Mount]) (Resolve 1 (Response 200 None))) = [(TRENDING_LOG, ParseError)]"
proof -
  have h: "map_of (inflight (app_run (initial_app None) [Mount])) 1 = Some TrendingRequest" by code_simp
  have a: "awaited_results (Response 200 None) = Inl ParseError"
    by (simp add: awaited_results_def fetchTMDB_result_def response_ok_def)
  have c: "console (app_run (initial_app None) [Mount]) = []" by code_simp
  show ?thesis using settle_failure_logged[OF h a] h c by simp
qed

text \<open>
  C24. The current query wins on a first-in first-out network: in every run from the
  initial state that ends mounted, if the most recently issued search request is still
  pending, its URL is the one of the current stable query, and when every pending request
  is then answered in issue order with every search succeeding, the list holds the
  response to that request.  The code gets this only from the order of the network, not
  from any check of its own (spec section 9).
\<close>

theorem fifo_current_query_wins:
  assumes m: "mounted (app_run (initial_app key) es)"
    and u: "search_url_of key (debouncedSearchTerm (app_run (initial_app key) es)) = [u]"
    and last: "kind_requests SearchRequest (app_run (initial_app key) es) = rs @ [(i, SearchRequest, v)]"
    and pend: "(i, SearchRequest) \<in> set (inflight (app_run (initial_app key) es))"
    and ok: "list_all (\<lambda>p. \<not> isl (awaited_results (answer (fst p))))
               (kind_inflight SearchRequest (app_run (initial_app key) es))"
  shows "v = u \<and>
    awaited_results (answer i) = Inr (items (movies (settle_all answer (app_run (initial_app key) es))))"
proof
  have r: "reachable (app_run (initial_app key) es)" by (rule reachable_run[OF reachable.init])
  have k: "api_key (app_run (initial_app key) es) = key" by (simp add: api_key_run initial_app_def)
  have "last (search_urls (app_run (initial_app key) es)) = u"
    using reachable_last_search_url[OF r m] u k by simp
  then show "v = u" using last by (simp add: search_urls_def)
  have l: "last (kind_inflight SearchRequest (app_run (initial_app key) es)) = (i, SearchRequest)"
    using reachable_issue_inv[OF r] last pend by (rule last_pending_search)
  have ne: "kind_inflight SearchRequest (app_run (initial_app key) es) \<noteq> []"
    using pend by (auto simp: kind_inflight_def filter_empty_conv)
  show "awaited_results (answer i) = Inr (items (movies (settle_all answer (app_run (initial_app key) es))))"
    using settle_all_last_pending[OF ne ok] l by simp
qed

theorem fifo_current_query_wins_witness:
  "mounted (app_run (initial_app None) [Mount, Type [0x61], Tick 700, Type [0x61, 0x62], Tick 700]) \<and>
   search_url_of None (debouncedSearchTerm (app_run (initial_app None) [Mount, Type [0x61], Tick 700, Type [0x61, 0x62], Tick 700])) = [''https://api.themoviedb.org/3/search/movie?query=ab&api_key=undefined''] \<and>
   kind_requests SearchRequest (app_run (initial_app None) [Mount, Type [0x61], Tick 700, Type [0x61, 0x62], Tick 700]) = [(0, SearchRequest, ''https://api.themoviedb.org/3/discover/movie?sort_by=popularity.desc&api_key=undefined''), (2, SearchRequest, ''https://api.themoviedb.org/3/search/movie?query=a&api_key=undefined'')] @ [(3, SearchRequest, ''https://api.themoviedb.org/3/search/movie?query=ab&api_key=undefined'')] \<and>
   (3, SearchRequest) \<in> set (inflight (app_run (initial_app None) [Mount, Type [0x61], Tick 700, Type [0x61, 0x62], Tick 700])) \<and>
   list_all (\<lambda>p. \<not> isl (awaited_results ((\<lambda>i. Response 200 (Some (JObj [(''results'', JArr [JNum (int i)])]))) (fst p)))) (kind_inflight SearchRequest (app_run (initial_app None) [Mount, Type [0x61], Tick 700, Type [0x61, 0x62], Tick 700])) \<and>
   items (movies (settle_all (\<lambda>i. Response 200 (Some (JObj [(''results'', JArr [JNum (int i)])]))) (app_run (initial_app None) [Mount, Type [0x61], Tick 700, Type [0x61, 0x62], Tick 700]))) = JArr [JNum 3]"
proof -
  have m: "mounted (app_run (initial_app None) [Mount, Type [0x61], Tick 700, Type [0x61, 0x62], Tick 700])" by code_simp
  have d: "debouncedSearchTerm (app_run (initial_app None) [Mount, Type [0x61], Tick 700, Type [0x61, 0x62], Tick 700]) = [0x61, 0x62]" by code_simp
  have u: "search_url_of None (debouncedSearchTerm (app_run (initial_app None) [Mount, Type [0x61], Tick 700, Type [0x61, 0x62], Tick 700])) = [''https://api.themoviedb.org/3/search/movie?query=ab&api_key=undefined'']"
    unfolding d by code_simp
  have l: "kind_requests SearchRequest (app_run (initial_app None) [Mount, Type [0x61], Tick 700, Type [0x61, 0x62], Tick 700]) = [(0, SearchRequest, ''https://api.themoviedb.org/3/discover/movie?sort_by=popularity.desc&api_key=undefined''), (2, SearchRequest, ''https://api.themoviedb.org/3/search/movie?query=a&api_key=undefined'')] @ [(3, SearchRequest, ''https://api.themoviedb.org/3/search/movie?query=ab&api_key=undefined'')]"
    by code_simp
  have p: "(3, SearchRequest) \<in> set (inflight (app_run (initial_app None) [Mount, Type [0x61], Tick 700, Type [0x61, 0x62], Tick 700]))" by code_simp
  have k: "kind_inflight SearchRequest (app_run (initial_app None) [Mount, Type [0x61], Tick 700, Type [0x61, 0x62], Tick 700]) = [(0, SearchRequest), (2, SearchRequest), (3, SearchRequest)]"
    by code_simp
  have a: "awaited_results ((\<lambda>i. Response 200 (Some (JObj [(''results'', JArr [JNum (int i)])]))) i) = Inr (JArr [JNum (int i)])" for i
    by (simp add: awaited_results_def fetchTMDB_result_def response_ok_def results_of_def or_empty_def)
  have ok: "list_all (\<lambda>p. \<not> isl (awaited_results ((\<lambda>i. Response 200 (Some (JObj [(''results'', JArr [JNum (int i)])]))) (fst p)))) (kind_inflight SearchRequest (app_run (initial_app None) [Mount, Type [0x61], Tick 700, Type [0x61, 0x62], Tick 700]))"
    by (simp only: k) (simp add: a)
  have "awaited_results ((\<lambda>i. Response 200 (Some (JObj [(''results'', JArr [JNum (int i)])]))) 3) = Inr (items (movies (settle_all (\<lambda>i. Response 200 (Some (JObj [(''results'', JArr [JNum (int i)])]))) (app_run (initial_app None) [Mount, Type [0x61], Tick 700, Type [0x61, 0x62], Tick 700]))))"
    using fifo_current_query_wins[OF m u l p ok] by blast
  then have "items (movies (settle_all (\<lambda>i. Response 200 (Some (JObj [(''results'', JArr [JNum (int i)])]))) (app_run (initial_app None) [Mount, Type [0x61], Tick 700, Type [0x61, 0x62], Tick 700]))) = JArr [JNum 3]"
    by (simp only: a) simp
  with m u l p ok show ?thesis by blast
qed

text \<open>
  C22. The loading flag is shared by overlapping searches: whenever two search requests
  are pending, settling either of them, with any outcome, turns the All Movies spinner
  off although the other is still pending.
\<close>

theorem spinner_off_while_pending:
  assumes "map_of (inflight s) i = Some SearchRequest" and "map_of (inflight s) j = Some SearchRequest"
    and "j \<noteq> i"
  shows "map_of (inflight (app_step s (Resolve i r))) j = Some SearchRequest \<and>
    render_all_movies (movies (app_step s (Resolve i r))) \<noteq> Inr Spinner"
  using resolve_search_stream(3)[OF assms(1), of r] resolve_search_stream(4)[OF assms(1) assms(3), of r] assms(2)
  by (simp add: render_all_movies_def split: option.split json.split)

theorem spinner_off_while_pending_witness:
  "map_of (inflight (app_run (initial_app None) two_queries)) 2 = Some SearchRequest \<and>
   map_of (inflight (app_run (initial_app None) two_queries)) 3 = Some SearchRequest \<and>
   render_all_movies (movies (app_step (app_run (initial_app None) two_queries) (Resolve 2 (Response 500 None)))) \<noteq> Inr Spinner"
proof -
  have p2: "map_of (inflight (app_run (initial_app None) two_queries)) 2 = Some SearchRequest" unfolding two_queries_def ok_results_def by code_simp
  have p3: "map_of (inflight (app_run (initial_app None) two_queries)) 3 = Some SearchRequest" unfolding two_queries_def ok_results_def by code_simp
  have "(3::nat) \<noteq> 2" by simp
  from spinner_off_while_pending[OF p2 p3 this, of "Response 500 None"] p2 p3 show ?thesis by simp
qed

text \<open>
  C30. A successful response whose \<open>results\<close> is truthy but not an array (a
  non-empty string, a number, an object) is stored as the list, and the All Movies
  section then throws while rendering, unless an error message is showing.
\<close>

theorem results_not_array_crashes_render:
  assumes "map_of (inflight s) i = Some SearchRequest" and "error_shown (err (movies s)) = None"
    and "js_truthy v" and "v \<notin> range JArr"
  shows "items (movies (app_step s (Resolve i (Response 200 (Some (JObj [(''results'', v)])))))) = v \<and>
    render_all_movies (movies (app_step s (Resolve i (Response 200 (Some (JObj [(''results'', v)])))))) = Inl NotAFunction \<and>
    (\<exists>e. render_page (app_step s (Resolve i (Response 200 (Some (JObj [(''results'', v)]))))) = Inl e)"
proof -
  have a: "awaited_results (Response 200 (Some (JObj [(''results'', v)]))) = Inr v"
    using assms(3) by (simp add: awaited_results_def fetchTMDB_result_def response_ok_def results_of_def or_empty_def)
  let ?s' = "app_step s (Resolve i (Response 200 (Some (JObj [(''results'', v)]))))"
  have m: "items (movies ?s') = v" "err (movies ?s') = err (movies s)" "\<not> loading (movies ?s')"
    using resolve_search_stream(1-3)[OF assms(1), of "Response 200 (Some (JObj [(''results'', v)]))"] a
    by simp_all
  have r: "render_all_movies (movies ?s') = Inl NotAFunction"
    using m assms(2-4) by (cases v) (simp_all add: render_all_movies_def)
  then show ?thesis
    using m(1) by (auto simp: render_page_def sum_bind_def split: sum.split)
qed


theorem results_not_array_crashes_render_witness:
  "map_of (inflight (app_run (initial_app None) [Mount])) 0 = Some SearchRequest \<and>
   error_shown (err (movies (app_run (initial_app None) [Mount]))) = None \<and> js_truthy (JStr ''x'') \<and> JStr ''x'' \<notin> range JArr \<and>
   render_all_movies (movies (app_step (app_run (initial_app None) [Mount]) (Resolve 0 (Response 200 (Some (JObj [(''results'', JStr ''x'')])))))) = Inl NotAFunction"
proof -
  have p: "map_of (inflight (app_run (initial_app None) [Mount])) 0 = Some SearchRequest" by code_simp
  have e: "error_shown (err (movies (app_run (initial_app None) [Mount]))) = None" by code_simp
  have t: "js_truthy (JStr ''x'')" by simp
  have n: "JStr ''x'' \<notin> range JArr" by auto
  from results_not_array_crashes_render[OF p e t n] p e t n show ?thesis by blast
qed

end
